theory Spec2Isabelle
  imports Complex_Main
begin

section \<open>Python values used by the handlers\<close>

text \<open>
  Exceptions that can leave a handler of \<^verbatim>\<open>User_API/customer_crud.py\<close>.
  \<open>HTTPException code detail\<close> is the framework's response exception; the others are
  ordinary Python exceptions (\<open>RedisError\<close> stands for any exception of the cache client).
\<close>

datatype py_exception =
    HTTPException nat string
  | TypeError
  | KeyError
  | AttributeError
  | RedisError

subsection \<open>\<^verbatim>\<open>str\<close> of an integer\<close>

definition digit_char :: "nat \<Rightarrow> char" where
  "digit_char d = ''0123456789'' ! d"

fun str_nat :: "nat \<Rightarrow> string" where
  "str_nat n = (if n < 10 then [digit_char n]
                else str_nat (n div 10) @ [digit_char (n mod 10)])"

declare str_nat.simps [simp del]

definition str_int :: "int \<Rightarrow> string" where
  "str_int i = (if i < 0 then CHR ''-'' # str_nat (nat (- i)) else str_nat (nat i))"

subsection \<open>JSON values\<close>

text \<open>
  What \<^verbatim>\<open>json.loads\<close> returns and \<^verbatim>\<open>json.dumps\<close> accepts. \<open>JInt\<close> is a Python
  \<^verbatim>\<open>int\<close>; \<open>JNum\<close> is a number of the type of \<^verbatim>\<open>Item.price\<close>, which the handlers
  only copy, format, and (if it were ever stored as a quantity) compare with and add to 1;
  that type is the parameter \<open>'p\<close>. A Python \<^verbatim>\<open>dict\<close> is an association list in
  insertion order.
\<close>

datatype 'p json =
    JNull
  | JBool bool
  | JInt int
  | JNum 'p
  | JStr string
  | JArr "'p json list"
  | JObj "(string \<times> 'p json) list"

text \<open>\<^verbatim>\<open>d[k] = v\<close> on a dict: an existing key keeps its position, a new key goes last.\<close>

fun dict_update :: "string \<Rightarrow> 'v \<Rightarrow> (string \<times> 'v) list \<Rightarrow> (string \<times> 'v) list" where
  "dict_update k v [] = [(k, v)]"
| "dict_update k v ((k', v') # kvs) =
     (if k' = k then (k, v) # kvs else (k', v') # dict_update k v kvs)"

text \<open>\<^verbatim>\<open>x[k]\<close> with a string key.\<close>

fun getitem :: "'p json \<Rightarrow> string \<Rightarrow> py_exception + 'p json" where
  "getitem (JObj kvs) k = (case map_of kvs k of None \<Rightarrow> Inl KeyError | Some v \<Rightarrow> Inr v)"
| "getitem _ k = Inl TypeError"

text \<open>\<^verbatim>\<open>x.get(k, d)\<close>: only a dict has the method.\<close>

fun get_default :: "'p json \<Rightarrow> string \<Rightarrow> 'p json \<Rightarrow> py_exception + 'p json" where
  "get_default (JObj kvs) k d = (case map_of kvs k of None \<Rightarrow> Inr d | Some v \<Rightarrow> Inr v)"
| "get_default _ k d = Inl AttributeError"

text \<open>\<^verbatim>\<open>x[k] = v\<close> with a string key.\<close>

fun setitem :: "'p json \<Rightarrow> string \<Rightarrow> 'p json \<Rightarrow> py_exception + 'p json" where
  "setitem (JObj kvs) k v = Inr (JObj (dict_update k v kvs))"
| "setitem _ k v = Inl TypeError"

text \<open>\<^verbatim>\<open>x + 1\<close>, \<^verbatim>\<open>x - 1\<close> and \<^verbatim>\<open>x > 1\<close>; a \<^verbatim>\<open>bool\<close> counts as 0 or 1.\<close>

fun py_add1 :: "'p::{one,plus,minus,ord} json \<Rightarrow> py_exception + 'p json" where
  "py_add1 (JInt n) = Inr (JInt (n + 1))"
| "py_add1 (JBool b) = Inr (JInt ((if b then 1 else 0) + 1))"
| "py_add1 (JNum p) = Inr (JNum (p + 1))"
| "py_add1 _ = Inl TypeError"

fun py_sub1 :: "'p::{one,plus,minus,ord} json \<Rightarrow> py_exception + 'p json" where
  "py_sub1 (JInt n) = Inr (JInt (n - 1))"
| "py_sub1 (JBool b) = Inr (JInt ((if b then 1 else 0) - 1))"
| "py_sub1 (JNum p) = Inr (JNum (p - 1))"
| "py_sub1 _ = Inl TypeError"

fun py_gt1 :: "'p::{one,plus,minus,ord} json \<Rightarrow> py_exception + bool" where
  "py_gt1 (JInt n) = Inr (n > 1)"
| "py_gt1 (JBool b) = Inr ((if b then (1::int) else 0) > 1)"
| "py_gt1 (JNum p) = Inr (p > 1)"
| "py_gt1 _ = Inl TypeError"

text \<open>
  The cache holds the text that \<^verbatim>\<open>json.dumps\<close> produced; the model keeps the JSON value
  that text encodes, so \<^verbatim>\<open>json.dumps\<close> is the identity and \<^verbatim>\<open>json.loads\<close> only
  fails on \<^verbatim>\<open>None\<close> (a \<^verbatim>\<open>TypeError\<close>: the argument must be \<^verbatim>\<open>str\<close> or bytes).
\<close>

definition json_dumps :: "'p json \<Rightarrow> 'p json" where
  "json_dumps v = v"

fun json_loads :: "'p json option \<Rightarrow> py_exception + 'p json" where
  "json_loads None = Inl TypeError"
| "json_loads (Some v) = Inr v"

section \<open>The collaborators\<close>

subsection \<open>Inventory\<close>

text \<open>
  Modelled from the spec: the class \<^verbatim>\<open>Item\<close> of \<^verbatim>\<open>shared_files.models\<close>, with the
  attributes the handlers read: \<open>id\<close> (an integer), \<open>name\<close> (a string), \<open>price\<close>
  (a JSON-serialisable number, of the parameter type \<open>'p\<close>) and \<open>in_stock\<close> (of the
  parameter type \<open>'s\<close>). The database session is the list of rows in query order.
\<close>

record ('p, 's) item =
  item_id :: int
  name :: string
  price :: 'p
  in_stock :: 's

type_synonym ('p, 's) session = "('p, 's) item list"

text \<open>\<^verbatim>\<open>db.query(Item).all()\<close> and \<^verbatim>\<open>db.query(Item).filter(Item.id==id).first()\<close>.\<close>

definition query_all :: "('p, 's) session \<Rightarrow> ('p, 's) item list" where
  "query_all db = db"

definition query_first :: "('p, 's) session \<Rightarrow> int \<Rightarrow> ('p, 's) item option" where
  "query_first db i = find (\<lambda>it. item_id it = i) db"

subsection \<open>Identity\<close>

text \<open>
  \<^verbatim>\<open>verify_token\<close> of \<^verbatim>\<open>User_API.auth\<close> is a parameter of every handler that calls it:
  a function from the bearer token to the claims \<^verbatim>\<open>{'sub': ..., 'user_id': ...}\<close>, or to
  the exception it raises.
\<close>

record user_info =
  sub :: string
  user_id :: int

type_synonym verifier = "string \<Rightarrow> py_exception + user_info"

subsection \<open>The cache\<close>

text \<open>
  The client \<^verbatim>\<open>r\<close> of \<^verbatim>\<open>shared_files.database\<close> is a Redis client. A key holds a hash
  (fields in insertion order, the integer field standing for its decimal text) and an
  optional time of expiry in seconds; a key is gone once its time of expiry has passed (it
  is still served at the very instant of its expiry). A hash that loses its last field is
  deleted with its key. Writing a field does not touch the expiry; writing to a key that
  is gone creates it anew, with no expiry.

  Every call of the client is a round trip of its own, so the commands of one request run
  at different instants. The environment of a request gives, for each cache command, the
  instant at which it runs and whether the client raises instead of performing it; a
  command that raises has no effect on the cache. The commands are \<^verbatim>\<open>HGET\<close>,
  \<^verbatim>\<open>HSET\<close>, \<^verbatim>\<open>EXPIRE\<close>, \<^verbatim>\<open>HDEL\<close> and \<^verbatim>\<open>HGETALL\<close> of Redis.
\<close>

record 'p entry =
  hash_fields :: "(int \<times> 'p json) list"
  expires_at :: "nat option"

type_synonym 'p cache = "string \<Rightarrow> 'p entry option"

datatype cache_op = HGET | HSET | EXPIRE | HDEL | HGETALL

record env =
  time_of :: "cache_op \<Rightarrow> nat"
  fails :: "cache_op \<Rightarrow> bool"

text \<open>The entry of a key as a command running at the instant \<open>t\<close> finds it.\<close>

definition live :: "nat \<Rightarrow> 'p cache \<Rightarrow> string \<Rightarrow> 'p entry option" where
  "live t c k =
     (case c k of
        None \<Rightarrow> None
      | Some x \<Rightarrow>
          (case expires_at x of
             None \<Rightarrow> Some x
           | Some d \<Rightarrow> if d < t then None else Some x))"

fun field_update :: "int \<Rightarrow> 'v \<Rightarrow> (int \<times> 'v) list \<Rightarrow> (int \<times> 'v) list" where
  "field_update f v [] = [(f, v)]"
| "field_update f v ((f', v') # fs) =
     (if f' = f then (f, v) # fs else (f', v') # field_update f v fs)"

definition hget :: "env \<Rightarrow> 'p cache \<Rightarrow> string \<Rightarrow> int \<Rightarrow> py_exception + 'p json option" where
  "hget e c k f =
     (if fails e HGET then Inl RedisError
      else Inr (case live (time_of e HGET) c k of
                  None \<Rightarrow> None
                | Some x \<Rightarrow> map_of (hash_fields x) f))"

definition hset ::
  "env \<Rightarrow> 'p cache \<Rightarrow> string \<Rightarrow> int \<Rightarrow> 'p json \<Rightarrow> (py_exception + unit) \<times> 'p cache" where
  "hset e c k f v =
     (if fails e HSET then (Inl RedisError, c)
      else (Inr (),
            c(k \<mapsto> (case live (time_of e HSET) c k of
                       None \<Rightarrow> \<lparr>hash_fields = [(f, v)], expires_at = None\<rparr>
                     | Some x \<Rightarrow> x\<lparr>hash_fields := field_update f v (hash_fields x)\<rparr>))))"

text \<open>\<^verbatim>\<open>EXPIRE\<close> with a timeout of 0 deletes the key.\<close>

definition expire ::
  "env \<Rightarrow> 'p cache \<Rightarrow> string \<Rightarrow> nat \<Rightarrow> (py_exception + unit) \<times> 'p cache" where
  "expire e c k secs =
     (if fails e EXPIRE then (Inl RedisError, c)
      else (Inr (),
            (case live (time_of e EXPIRE) c k of
               None \<Rightarrow> c
             | Some x \<Rightarrow>
                 if secs = 0 then c(k := None)
                 else c(k \<mapsto> x\<lparr>expires_at := Some (time_of e EXPIRE + secs)\<rparr>))))"

definition hdel ::
  "env \<Rightarrow> 'p cache \<Rightarrow> string \<Rightarrow> int \<Rightarrow> (py_exception + unit) \<times> 'p cache" where
  "hdel e c k f =
     (if fails e HDEL then (Inl RedisError, c)
      else (Inr (),
            (case live (time_of e HDEL) c k of
               None \<Rightarrow> c
             | Some x \<Rightarrow>
                 (let fs = filter (\<lambda>p. fst p \<noteq> f) (hash_fields x)
                  in if fs = [] then c(k := None) else c(k \<mapsto> x\<lparr>hash_fields := fs\<rparr>)))))"

definition hgetall ::
  "env \<Rightarrow> 'p cache \<Rightarrow> string \<Rightarrow> py_exception + (int \<times> 'p json) list" where
  "hgetall e c k =
     (if fails e HGETALL then Inl RedisError
      else Inr (case live (time_of e HGETALL) c k of None \<Rightarrow> [] | Some x \<Rightarrow> hash_fields x))"

section \<open>The handlers of \<^verbatim>\<open>User_API/customer_crud.py\<close>\<close>

definition get_cart_key :: "string \<Rightarrow> int \<Rightarrow> string" where
  "get_cart_key username i = ''cart:'' @ username @ ''_'' @ str_int i"

text \<open>What \<^verbatim>\<open>view_store\<close> returns for one item: \<^verbatim>\<open>{'name': ..., 'price': ..., 'in_stock': ...}\<close>.\<close>

record 's store_row =
  row_name :: string
  row_price :: string
  row_in_stock :: 's

text \<open>
  \<open>str_price\<close> is Python's formatting of a price inside an f-string, a parameter like
  the type of prices itself.
\<close>

definition view_store ::
  "('p \<Rightarrow> string) \<Rightarrow> ('p, 's) session \<Rightarrow> py_exception + 's store_row list" where
  "view_store str_price db =
     (let inventory = query_all db
      in if inventory = []
         then Inl (HTTPException 404
                ''There are no items in inventory right now. Please come back later.'')
         else Inr (map (\<lambda>it. \<lparr>row_name = name it,
                                row_price = ''$'' @ str_price (price it),
                                row_in_stock = in_stock it\<rparr>) inventory))"

text \<open>Sequencing of steps that may raise.\<close>

definition and_then :: "'e + 'a \<Rightarrow> ('a \<Rightarrow> 'e + 'b) \<Rightarrow> 'e + 'b" where
  "and_then m f = (case m of Inl x \<Rightarrow> Inl x | Inr a \<Rightarrow> f a)"

text \<open>
  Lines 57 to 67: the line item to write, from what \<^verbatim>\<open>hget\<close> returned. A stored text is
  never empty, so the condition of the \<^verbatim>\<open>if\<close> is whether the field exists.
\<close>

definition new_item_info ::
  "'p::{one,plus,minus,ord} json option \<Rightarrow> ('p, 's) item \<Rightarrow> py_exception + 'p json" where
  "new_item_info existing_item it =
     (case existing_item of
        Some s \<Rightarrow>
          and_then (json_loads (Some s)) (\<lambda>item_info.
          and_then (get_default item_info ''quantity'' (JInt 1)) (\<lambda>q.
          and_then (py_add1 q) (\<lambda>q'.
          setitem item_info ''quantity'' q')))
      | None \<Rightarrow>
          Inr (JObj [(''id'', JInt (item_id it)),
                     (''name'', JStr (name it)),
                     (''price'', JNum (price it)),
                     (''quantity'', JInt 1)]))"

text \<open>Lines 57 to 70, the body of the \<^verbatim>\<open>try\<close>: the exception raised, if any, and the cache.\<close>

definition add_to_cart_try ::
  "env \<Rightarrow> 'p::{one,plus,minus,ord} cache \<Rightarrow> string \<Rightarrow> ('p, 's) item
     \<Rightarrow> (py_exception + unit) \<times> 'p cache" where
  "add_to_cart_try e c cart_key it =
     (case hget e c cart_key (item_id it) of
        Inl x \<Rightarrow> (Inl x, c)
      | Inr existing_item \<Rightarrow>
          (case new_item_info existing_item it of
             Inl x \<Rightarrow> (Inl x, c)
           | Inr item_info \<Rightarrow>
               (case hset e c cart_key (item_id it) (json_dumps item_info) of
                  (Inl x, c1) \<Rightarrow> (Inl x, c1)
                | (Inr u, c1) \<Rightarrow> expire e c1 cart_key 86400)))"

text \<open>The handler returns the message of its response, or the exception, and the cache.\<close>

definition add_to_cart ::
  "env \<Rightarrow> verifier \<Rightarrow> ('p::{one,plus,minus,ord}, 's) session \<Rightarrow> int \<Rightarrow> string \<Rightarrow> 'p cache
     \<Rightarrow> (py_exception + string) \<times> 'p cache" where
  "add_to_cart e verify_token db i token c =
     (case verify_token token of
        Inl x \<Rightarrow> (Inl x, c)
      | Inr ui \<Rightarrow>
          (let cart_key = get_cart_key (sub ui) (user_id ui)
           in case query_first db i of
                None \<Rightarrow>
                  (Inl (HTTPException 404 (''There is no item with the id: '' @ str_int i)), c)
              | Some it \<Rightarrow>
                  (case add_to_cart_try e c cart_key it of
                     (Inl x, c') \<Rightarrow>
                       (Inl (HTTPException 500
                          (''There was a problem adding '' @ name it
                             @ '' to cart. Please try again later.'')), c')
                   | (Inr u, c') \<Rightarrow>
                       (Inr (''Item: '' @ name it @ '' was added to cart!''), c'))))"

text \<open>Line 89: \<^verbatim>\<open>[json.loads(cart[id]) for id in cart]\<close>, stopping at the first exception.\<close>

fun decode_all :: "(int \<times> 'p json) list \<Rightarrow> int list \<Rightarrow> py_exception + 'p json list" where
  "decode_all cart [] = Inr []"
| "decode_all cart (f # fs) =
     and_then (json_loads (map_of cart f)) (\<lambda>v.
     and_then (decode_all cart fs) (\<lambda>vs. Inr (v # vs)))"

definition view_cart ::
  "env \<Rightarrow> verifier \<Rightarrow> string \<Rightarrow> 'p cache \<Rightarrow> py_exception + 'p json list" where
  "view_cart e verify_token token c =
     (case verify_token token of
        Inl x \<Rightarrow> Inl x
      | Inr ui \<Rightarrow>
          (let cart_key = get_cart_key (sub ui) (user_id ui)
           in and_then (hgetall e c cart_key) (\<lambda>cart. decode_all cart (map fst cart))))"

text \<open>Lines 110 to 114, the body of the \<^verbatim>\<open>try\<close> of \<^verbatim>\<open>remove_item_from_cart\<close>.\<close>

definition remove_item_try ::
  "env \<Rightarrow> 'p::{one,plus,minus,ord} cache \<Rightarrow> string \<Rightarrow> int \<Rightarrow> 'p json
     \<Rightarrow> (py_exception + unit) \<times> 'p cache" where
  "remove_item_try e c cart_key i it =
     (case and_then (getitem it ''quantity'') py_gt1 of
        Inl x \<Rightarrow> (Inl x, c)
      | Inr True \<Rightarrow>
          (case and_then (get_default it ''quantity'' (JInt 1)) (\<lambda>q.
                and_then (py_sub1 q) (\<lambda>q'.
                setitem it ''quantity'' q')) of
             Inl x \<Rightarrow> (Inl x, c)
           | Inr it' \<Rightarrow> hset e c cart_key i (json_dumps it'))
      | Inr False \<Rightarrow> hdel e c cart_key i)"

definition remove_item_from_cart ::
  "env \<Rightarrow> verifier \<Rightarrow> int \<Rightarrow> string \<Rightarrow> 'p::{one,plus,minus,ord} cache
     \<Rightarrow> (py_exception + string) \<times> 'p cache" where
  "remove_item_from_cart e verify_token i token c =
     (case verify_token token of
        Inl x \<Rightarrow> (Inl x, c)
      | Inr ui \<Rightarrow>
          (let cart_key = get_cart_key (sub ui) (user_id ui)
           in case hget e c cart_key i of
                Inl x \<Rightarrow> (Inl x, c)
              | Inr got \<Rightarrow>
                  (case json_loads got of
                     Inl x \<Rightarrow> (Inl x, c)
                   | Inr it \<Rightarrow>
                       (case remove_item_try e c cart_key i it of
                          (Inl x, c') \<Rightarrow>
                            (Inl (HTTPException 500
                               ''Could not delete item from the cart. Please try again later.''), c')
                        | (Inr u, c') \<Rightarrow>
                            (Inr ''The item was removed from your cart.'', c')))))"

section \<open>Reading a cart\<close>

text \<open>The line item that a lookup at the instant \<open>t\<close> finds under a field of a cart, if any.\<close>

definition cart_lookup :: "nat \<Rightarrow> 'p cache \<Rightarrow> string \<Rightarrow> int \<Rightarrow> 'p json option" where
  "cart_lookup t c k f = (case live t c k of None \<Rightarrow> None | Some x \<Rightarrow> map_of (hash_fields x) f)"

text \<open>The whole mapping of a cart as \<^verbatim>\<open>hgetall\<close> reads it at the instant \<open>t\<close>.\<close>

definition cart_items :: "nat \<Rightarrow> 'p cache \<Rightarrow> string \<Rightarrow> (int \<times> 'p json) list" where
  "cart_items t c k = (case live t c k of None \<Rightarrow> [] | Some x \<Rightarrow> hash_fields x)"

text \<open>
  The key exists with a time of expiry that a command at \<open>t1\<close> still finds it and a
  command at \<open>t2\<close> does not: the cart lapses between the two commands.
\<close>

definition lapses_between :: "'p cache \<Rightarrow> string \<Rightarrow> nat \<Rightarrow> nat \<Rightarrow> bool" where
  "lapses_between c k t1 t2 =
     (case c k of
        None \<Rightarrow> False
      | Some x \<Rightarrow> (case expires_at x of None \<Rightarrow> False | Some d \<Rightarrow> t1 \<le> d \<and> d < t2))"

text \<open>The value of a key of a decoded line item.\<close>

fun attr :: "'p json \<Rightarrow> string \<Rightarrow> 'p json option" where
  "attr (JObj kvs) k = map_of kvs k"
| "attr _ k = None"

section \<open>Sequences of requests\<close>

text \<open>
  A request that changes carts, with everything it runs with: the environment, the
  verifier, the inventory at that time, the path parameter and the token.
\<close>

datatype ('p, 's) request =
    AddToCart env verifier "('p, 's) session" int string
  | RemoveFromCart env verifier int string

fun serve :: "('p::{one,plus,minus,ord}, 's) request \<Rightarrow> 'p cache \<Rightarrow> 'p cache" where
  "serve (AddToCart e verify_token db i token) c = snd (add_to_cart e verify_token db i token c)"
| "serve (RemoveFromCart e verify_token i token) c =
     snd (remove_item_from_cart e verify_token i token c)"

fun serve_all :: "('p::{one,plus,minus,ord}, 's) request list \<Rightarrow> 'p cache \<Rightarrow> 'p cache" where
  "serve_all [] c = c"
| "serve_all (r # rs) c = serve_all rs (serve r c)"

text \<open>A stored line item whose quantity is an integer, at least 1.\<close>

definition positive_quantity :: "'p json \<Rightarrow> bool" where
  "positive_quantity v =
     (case attr v ''quantity'' of Some (JInt q) \<Rightarrow> 1 \<le> q | _ \<Rightarrow> False)"

definition all_positive :: "'p cache \<Rightarrow> bool" where
  "all_positive c =
     (\<forall>k x f v. c k = Some x \<longrightarrow> (f, v) \<in> set (hash_fields x) \<longrightarrow> positive_quantity v)"

section \<open>Reading a decimal numeral back\<close>

definition digit_val :: "char \<Rightarrow> nat" where
  "digit_val ch = of_char ch - 48"

definition nat_of_str :: "string \<Rightarrow> nat" where
  "nat_of_str s = foldl (\<lambda>a ch. 10 * a + digit_val ch) 0 s"

section \<open>A scenario\<close>

text \<open>
  The catalog holds a widget at 9.99 and a gadget at 2.50; the user \<open>U\<close> with id 7 is
  authenticated by any token. In the environment \<open>quiet t\<close> every command of the request
  runs at the instant \<open>t\<close> and the cache answers; in \<open>expire_down t\<close> it answers every
  command but \<^verbatim>\<open>expire\<close>.
\<close>

definition widget :: "(rat, bool) item" where
  "widget = \<lparr>item_id = 1, name = ''Widget'', price = 999 / 100, in_stock = True\<rparr>"

definition gadget :: "(rat, bool) item" where
  "gadget = \<lparr>item_id = 2, name = ''Gadget'', price = 5 / 2, in_stock = False\<rparr>"

definition catalog :: "(rat, bool) session" where
  "catalog = [widget, gadget]"

definition user_U :: verifier where
  "user_U token = Inr \<lparr>sub = ''U'', user_id = 7\<rparr>"

definition quiet :: "nat \<Rightarrow> env" where
  "quiet t = \<lparr>time_of = (\<lambda>op. t), fails = (\<lambda>op. False)\<rparr>"

definition expire_down :: "nat \<Rightarrow> env" where
  "expire_down t = \<lparr>time_of = (\<lambda>op. t), fails = (\<lambda>op. op = EXPIRE)\<rparr>"

text \<open>
  Requests whose commands are a few seconds apart: the read at 86404 and the write at
  86406; the read and the write at 86399 and the \<^verbatim>\<open>expire\<close> at 86401.
\<close>

definition late_write :: env where
  "late_write = \<lparr>time_of = (\<lambda>op. if op = HGET then 86404 else 86406), fails = (\<lambda>op. False)\<rparr>"

definition late_expire :: env where
  "late_expire = \<lparr>time_of = (\<lambda>op. if op = EXPIRE then 86401 else 86399), fails = (\<lambda>op. False)\<rparr>"

definition widget_line :: "int \<Rightarrow> rat json" where
  "widget_line q = JObj [(''id'', JInt 1), (''name'', JStr ''Widget''),
                         (''price'', JNum (999 / 100)), (''quantity'', JInt q)]"

text \<open>The cache after the user has added the widget once, and twice.\<close>

definition once :: "rat cache" where
  "once = snd (add_to_cart (quiet 0) user_U catalog 1 ''token'' Map.empty)"

definition twice :: "rat cache" where
  "twice = snd (add_to_cart (quiet 5) user_U catalog 1 ''token'' once)"

text \<open>The cache after the user has also added the gadget.\<close>

definition both :: "rat cache" where
  "both = snd (add_to_cart (quiet 5) user_U catalog 2 ''token'' once)"

text \<open>A rendering of prices with two decimal places.\<close>

definition cents :: "rat \<Rightarrow> string" where
  "cents p = str_int \<lfloor>p\<rfloor> @ ''.'' @ str_nat (nat \<lfloor>p * 100\<rfloor> mod 100 div 10)
               @ str_nat (nat \<lfloor>p * 100\<rfloor> mod 10)"

section \<open>Facts about \<^verbatim>\<open>str\<close>\<close>

lemma digit_val_digit_char: "d < 10 \<Longrightarrow> digit_val (digit_char d) = d"
proof -
  assume "d < 10"
  then have "d \<in> {0,1,2,3,4,5,6,7,8,9}" by auto
  then show ?thesis by (auto simp: digit_val_def digit_char_def)
qed

lemma nat_of_str_str_nat: "nat_of_str (str_nat n) = n"
proof (induction n rule: str_nat.induct)
  case (1 n)
  show ?case
  proof (cases "n < 10")
    case True
    then show ?thesis by (simp add: str_nat.simps [of n] nat_of_str_def digit_val_digit_char)
  next
    case False
    with 1 have "nat_of_str (str_nat (n div 10)) = n div 10" by simp
    with False show ?thesis
      by (simp add: str_nat.simps [of n] nat_of_str_def digit_val_digit_char)
  qed
qed

lemma str_nat_inj: "str_nat m = str_nat n \<Longrightarrow> m = n"
  by (metis nat_of_str_str_nat)

lemma digit_char_set: "d < 10 \<Longrightarrow> digit_char d \<in> set ''0123456789''"
  unfolding digit_char_def by (rule nth_mem) simp

lemma str_nat_chars: "set (str_nat n) \<subseteq> set ''0123456789''"
proof (induction n rule: str_nat.induct)
  case (1 n)
  show ?case
  proof (cases "n < 10")
    case True
    then show ?thesis using digit_char_set [of n] by (simp add: str_nat.simps [of n])
  next
    case False
    with 1 have "set (str_nat (n div 10)) \<subseteq> set ''0123456789''" by simp
    moreover have "digit_char (n mod 10) \<in> set ''0123456789''" by (rule digit_char_set) simp
    ultimately show ?thesis using False by (simp add: str_nat.simps [of n])
  qed
qed

lemma str_nat_nonempty: "str_nat n \<noteq> []"
  by (simp add: str_nat.simps [of n])

lemma str_nat_no_sign: "hd (str_nat n) \<noteq> CHR ''-''"
proof -
  have "hd (str_nat n) \<in> set (str_nat n)" using str_nat_nonempty by simp
  then have "hd (str_nat n) \<in> set ''0123456789''" using str_nat_chars by blast
  then show ?thesis by auto
qed

lemma str_int_inj: "str_int i = str_int j \<Longrightarrow> i = j"
proof -
  assume eq: "str_int i = str_int j"
  show ?thesis
  proof (cases "i < 0"; cases "j < 0")
    assume "i < 0" "j < 0"
    with eq have "nat (- i) = nat (- j)" by (simp add: str_int_def str_nat_inj)
    with \<open>i < 0\<close> \<open>j < 0\<close> show ?thesis by simp
  next
    assume "i < 0" "\<not> j < 0"
    with eq have "str_nat (nat j) = CHR ''-'' # str_nat (nat (- i))" by (simp add: str_int_def)
    then have "hd (str_nat (nat j)) = CHR ''-''" by simp
    with str_nat_no_sign show ?thesis by blast
  next
    assume "\<not> i < 0" "j < 0"
    with eq have "str_nat (nat i) = CHR ''-'' # str_nat (nat (- j))" by (simp add: str_int_def)
    then have "hd (str_nat (nat i)) = CHR ''-''" by simp
    with str_nat_no_sign show ?thesis by blast
  next
    assume "\<not> i < 0" "\<not> j < 0"
    with eq have "nat i = nat j" by (simp add: str_int_def str_nat_inj)
    with \<open>\<not> i < 0\<close> \<open>\<not> j < 0\<close> show ?thesis by simp
  qed
qed

lemma str_int_no_sep: "CHR ''_'' \<notin> set (str_int i)"
proof -
  have "CHR ''_'' \<notin> set (str_nat n)" for n using str_nat_chars [of n] by auto
  then show ?thesis by (simp add: str_int_def)
qed

text \<open>A text is cut in one way only at the last occurrence of a character.\<close>

lemma takeWhile_upto: "x \<notin> set xs \<Longrightarrow> takeWhile (\<lambda>c. c \<noteq> x) (xs @ x # ys) = xs"
  by (induction xs) auto

lemma split_at_last:
  assumes "x \<notin> set s1" "x \<notin> set s2" "u1 @ x # s1 = u2 @ x # s2"
  shows "u1 = u2 \<and> s1 = s2"
proof -
  from assms(3) have "rev (u1 @ x # s1) = rev (u2 @ x # s2)" by simp
  then have eq: "rev s1 @ x # rev u1 = rev s2 @ x # rev u2" by simp
  have "takeWhile (\<lambda>c. c \<noteq> x) (rev s1 @ x # rev u1) = rev s1"
    using assms(1) by (simp add: takeWhile_upto)
  moreover have "takeWhile (\<lambda>c. c \<noteq> x) (rev s2 @ x # rev u2) = rev s2"
    using assms(2) by (simp add: takeWhile_upto)
  ultimately have "rev s1 = rev s2" using eq by simp
  then have "s1 = s2" by simp
  with assms(3) show ?thesis by simp
qed

section \<open>The cart key\<close>

text \<open>
  Claim C4. The key of a cart is a function of the subject and the user id alone, and two
  different pairs of a subject and a user id never get the same key, even when the subject
  contains the separator \<open>_\<close>: the decimal text of the id has no \<open>_\<close>, so the last \<open>_\<close>
  of the key is the separator.
\<close>

theorem get_cart_key_injective:
  "(u1, i1) \<noteq> (u2, i2) \<Longrightarrow> get_cart_key u1 i1 \<noteq> get_cart_key u2 i2"
proof
  assume ne: "(u1, i1) \<noteq> (u2, i2)" and eq: "get_cart_key u1 i1 = get_cart_key u2 i2"
  from eq have "u1 @ CHR ''_'' # str_int i1 = u2 @ CHR ''_'' # str_int i2"
    by (simp add: get_cart_key_def)
  then have "u1 = u2 \<and> str_int i1 = str_int i2"
    by (rule split_at_last [OF str_int_no_sep str_int_no_sep])
  then have "u1 = u2 \<and> i1 = i2" by (auto dest: str_int_inj)
  with ne show False by simp
qed

theorem get_cart_key_injective_witness:
  "(''a_1'', 2::int) \<noteq> (''a'', 12) \<and> get_cart_key ''a_1'' 2 \<noteq> get_cart_key ''a'' 12"
  using get_cart_key_injective [of "''a_1''" 2 "''a''" 12] by simp

section \<open>Facts about the cache and the line items\<close>

lemma map_of_field_update: "map_of (field_update f v fs) = (map_of fs)(f \<mapsto> v)"
  by (induction fs) (auto simp: fun_eq_iff)

lemma map_of_dict_update: "map_of (dict_update k v kvs) = (map_of kvs)(k \<mapsto> v)"
  by (induction kvs) (auto simp: fun_eq_iff)

lemma map_of_filter_field: "map_of (filter (\<lambda>p. fst p \<noteq> f) fs) = (map_of fs)(f := None)"
  by (induction fs) (auto simp: fun_eq_iff)

lemma set_field_update: "set (field_update f v fs) \<subseteq> insert (f, v) (set fs)"
  by (induction fs) (auto split: if_splits)

lemma filter_empty_lookup:
  assumes "filter (\<lambda>p. fst p \<noteq> f) fs = []" "f' \<noteq> f"
  shows "map_of fs f' = None"
proof -
  have "((map_of fs)(f := None)) f' = map_of [] f'"
    using assms(1) map_of_filter_field [of f fs] by simp
  with assms(2) show ?thesis by simp
qed

lemma hget_cart_lookup:
  "hget e c k f =
     (if fails e HGET then Inl RedisError else Inr (cart_lookup (time_of e HGET) c k f))"
  by (simp add: hget_def cart_lookup_def)

lemma query_first_id: "query_first db i = Some it \<Longrightarrow> item_id it = i"
  by (auto simp: query_first_def find_Some_iff)

lemma live_Some: "live t c k = Some x \<Longrightarrow> c k = Some x"
  by (auto simp: live_def split: option.splits if_splits)

lemma live_later: "live t c k = None \<Longrightarrow> t \<le> t' \<Longrightarrow> live t' c k = None"
  by (auto simp: live_def split: option.splits if_splits)

lemma cart_lookup_later: "live t c k = None \<Longrightarrow> t \<le> t' \<Longrightarrow> cart_lookup t' c k f = None"
  by (simp add: cart_lookup_def live_later)

lemma cart_lookup_live: "cart_lookup t c k f = Some v \<Longrightarrow> live t c k \<noteq> None"
  by (auto simp: cart_lookup_def split: option.splits)

text \<open>The cache after each command, as a lookup at the instant \<open>t\<close> finds it.\<close>

lemma cart_lookup_hset:
  "\<not> fails e HSET \<Longrightarrow>
     cart_lookup (time_of e HSET) (snd (hset e c k f v)) k' =
       (if k' = k then (cart_lookup (time_of e HSET) c k)(f \<mapsto> v)
        else cart_lookup (time_of e HSET) c k')"
  by (auto simp: cart_lookup_def hset_def live_def map_of_field_update fun_eq_iff
           split: option.splits if_splits)

lemma cart_lookup_hset_other:
  "f' \<noteq> f \<Longrightarrow> time_of e HSET \<le> t \<Longrightarrow>
     cart_lookup t (snd (hset e c k f v)) k' f' = cart_lookup t c k' f'"
  by (auto simp: cart_lookup_def hset_def live_def map_of_field_update
           split: option.splits if_splits)

lemma cart_lookup_expire:
  "0 < secs \<Longrightarrow> t \<le> time_of e EXPIRE \<Longrightarrow>
     cart_lookup t (snd (expire e c k secs)) k' = cart_lookup t c k'"
  by (auto simp: cart_lookup_def expire_def live_def fun_eq_iff split: option.splits if_splits)

lemma cart_lookup_hdel:
  "\<not> fails e HDEL \<Longrightarrow> live (time_of e HDEL) c k \<noteq> None \<Longrightarrow>
     cart_lookup t (snd (hdel e c k f)) k' =
       (if k' = k then (cart_lookup t c k)(f := None) else cart_lookup t c k')"
  by (auto simp: cart_lookup_def hdel_def live_def map_of_filter_field fun_eq_iff Let_def
              filter_empty_lookup
           split: option.splits if_splits)

lemma hdel_gone: "live (time_of e HDEL) c k = None \<Longrightarrow> snd (hdel e c k f) = c"
  by (simp add: hdel_def)

lemma cart_lookup_hdel_other:
  "f' \<noteq> f \<Longrightarrow> cart_lookup t (snd (hdel e c k f)) k' f' = cart_lookup t c k' f'"
  by (auto simp: cart_lookup_def hdel_def live_def map_of_filter_field fun_eq_iff Let_def
              filter_empty_lookup
           split: option.splits if_splits)

lemma attr_quantity_obj: "attr v a = Some w \<Longrightarrow> \<exists>kvs. v = JObj kvs \<and> map_of kvs a = Some w"
  by (cases v) auto

lemma new_item_info_absent:
  "new_item_info None it =
     Inr (JObj [(''id'', JInt (item_id it)), (''name'', JStr (name it)),
                (''price'', JNum (price it)), (''quantity'', JInt 1)])"
  by (simp add: new_item_info_def)

lemma new_item_info_present:
  "attr v ''quantity'' = Some (JInt q) \<Longrightarrow>
     \<exists>kvs. v = JObj kvs \<and>
       new_item_info (Some v) it = Inr (JObj (dict_update ''quantity'' (JInt (q + 1)) kvs))"
  by (cases v) (auto simp: new_item_info_def and_then_def)

lemma add_to_cart_ok:
  assumes "verify_token token = Inr ui" "query_first db i = Some it"
    and "\<not> fails e HGET" "\<not> fails e HSET" "\<not> fails e EXPIRE"
    and "new_item_info (cart_lookup (time_of e HGET) c (get_cart_key (sub ui) (user_id ui)) i) it
           = Inr info"
  shows "add_to_cart e verify_token db i token c =
           (Inr (''Item: '' @ name it @ '' was added to cart!''),
            snd (expire e (snd (hset e c (get_cart_key (sub ui) (user_id ui)) i info))
                   (get_cart_key (sub ui) (user_id ui)) 86400))"
proof -
  have id: "item_id it = i" using assms(2) by (rule query_first_id)
  have h: "hset e c k f v = (Inr (), snd (hset e c k f v))" for k f v
    using assms(4) by (simp add: hset_def)
  have x: "expire e c' k n = (Inr (), snd (expire e c' k n))" for c' :: "'a cache" and k n
    using assms(5) by (simp add: expire_def)
  show ?thesis
    using assms(1,2,3,6)
    apply (simp add: add_to_cart_def add_to_cart_try_def hget_cart_lookup id json_dumps_def Let_def)
    apply (subst h)
    apply simp
    apply (subst x)
    apply simp
    done
qed

text \<open>What a lookup at the instant of the write finds after a successful \<^verbatim>\<open>add_to_cart\<close>.\<close>

lemma add_to_cart_written:
  assumes "verify_token token = Inr ui" "query_first db i = Some it"
    and "\<not> fails e HGET" "\<not> fails e HSET" "\<not> fails e EXPIRE"
    and "time_of e HSET \<le> time_of e EXPIRE"
    and "new_item_info (cart_lookup (time_of e HGET) c (get_cart_key (sub ui) (user_id ui)) i) it
           = Inr info"
  shows "cart_lookup (time_of e HSET) (snd (add_to_cart e verify_token db i token c))
           (get_cart_key (sub ui) (user_id ui)) i = Some info"
  using assms(4,6)
  by (simp add: add_to_cart_ok [where verify_token = verify_token and token = token,
        OF assms(1,2,3,4,5,7)] cart_lookup_expire cart_lookup_hset)

section \<open>Adding to a cart\<close>

text \<open>
  Claim C1. When the token is valid, the item exists, the cache answers and the
  \<^verbatim>\<open>expire\<close> command does not run before the write: adding an item whose id the read
  does not find in the user's cart stores a line item with quantity 1 and the item's
  current name and price; adding an item whose id the read finds in the cart, with an
  integer quantity, stores the quantity plus 1 and leaves the stored name and price as
  they were. What is stored is what a lookup at the instant of the write finds in the
  cache that the request leaves.
\<close>

theorem add_to_cart_quantity:
  assumes "verify_token token = Inr ui" "query_first db i = Some it"
    and "\<not> fails e HGET" "\<not> fails e HSET" "\<not> fails e EXPIRE"
    and "time_of e HSET \<le> time_of e EXPIRE"
  shows
    "(cart_lookup (time_of e HGET) c (get_cart_key (sub ui) (user_id ui)) i = None \<longrightarrow>
        cart_lookup (time_of e HSET) (snd (add_to_cart e verify_token db i token c))
            (get_cart_key (sub ui) (user_id ui)) i =
          Some (JObj [(''id'', JInt i), (''name'', JStr (name it)),
                      (''price'', JNum (price it)), (''quantity'', JInt 1)]))
     \<and> (\<forall>v q. cart_lookup (time_of e HGET) c (get_cart_key (sub ui) (user_id ui)) i = Some v
               \<and> attr v ''quantity'' = Some (JInt q) \<longrightarrow>
          (\<exists>v'. cart_lookup (time_of e HSET) (snd (add_to_cart e verify_token db i token c))
                    (get_cart_key (sub ui) (user_id ui)) i = Some v'
               \<and> attr v' ''quantity'' = Some (JInt (q + 1))
               \<and> attr v' ''name'' = attr v ''name''
               \<and> attr v' ''price'' = attr v ''price''))"
proof (intro conjI allI impI)
  let ?k = "get_cart_key (sub ui) (user_id ui)"
  assume a: "cart_lookup (time_of e HGET) c ?k i = None"
  have id: "item_id it = i" using assms(2) by (rule query_first_id)
  have "new_item_info (cart_lookup (time_of e HGET) c ?k i) it =
          Inr (JObj [(''id'', JInt i), (''name'', JStr (name it)),
                     (''price'', JNum (price it)), (''quantity'', JInt 1)])"
    using a id by (simp add: new_item_info_absent)
  then show "cart_lookup (time_of e HSET) (snd (add_to_cart e verify_token db i token c)) ?k i =
          Some (JObj [(''id'', JInt i), (''name'', JStr (name it)),
                      (''price'', JNum (price it)), (''quantity'', JInt 1)])"
    by (rule add_to_cart_written [where verify_token = verify_token and token = token,
          OF assms])
next
  let ?k = "get_cart_key (sub ui) (user_id ui)"
  fix v q
  assume p: "cart_lookup (time_of e HGET) c ?k i = Some v \<and> attr v ''quantity'' = Some (JInt q)"
  then obtain kvs where kvs: "v = JObj kvs"
    and info: "new_item_info (Some v) it = Inr (JObj (dict_update ''quantity'' (JInt (q + 1)) kvs))"
    using new_item_info_present by blast
  from p info
  have "new_item_info (cart_lookup (time_of e HGET) c ?k i) it
          = Inr (JObj (dict_update ''quantity'' (JInt (q + 1)) kvs))"
    by simp
  then have "cart_lookup (time_of e HSET) (snd (add_to_cart e verify_token db i token c)) ?k i
          = Some (JObj (dict_update ''quantity'' (JInt (q + 1)) kvs))"
    by (rule add_to_cart_written [where verify_token = verify_token and token = token,
          OF assms])
  then show "\<exists>v'. cart_lookup (time_of e HSET) (snd (add_to_cart e verify_token db i token c))
                    ?k i = Some v'
               \<and> attr v' ''quantity'' = Some (JInt (q + 1))
               \<and> attr v' ''name'' = attr v ''name''
               \<and> attr v' ''price'' = attr v ''price''"
    using kvs by (simp add: map_of_dict_update)
qed

lemma once_value:
  "once = [get_cart_key ''U'' 7 \<mapsto> \<lparr>hash_fields = [(1, widget_line 1)], expires_at = Some 86400\<rparr>]"
  by (simp add: once_def add_to_cart_def add_to_cart_try_def user_U_def query_first_def
        catalog_def widget_def hget_def hset_def expire_def live_def quiet_def
        new_item_info_def json_dumps_def widget_line_def)

lemma twice_value:
  "twice = [get_cart_key ''U'' 7 \<mapsto> \<lparr>hash_fields = [(1, widget_line 2)], expires_at = Some 86405\<rparr>]"
  by (simp add: twice_def once_value add_to_cart_def add_to_cart_try_def user_U_def query_first_def
        catalog_def widget_def hget_def hset_def expire_def live_def quiet_def
        new_item_info_def json_dumps_def widget_line_def and_then_def)

lemma user_U_ok: "user_U ''token'' = Inr \<lparr>sub = ''U'', user_id = 7\<rparr>"
  by (simp add: user_U_def)

lemma quiet_ok: "\<not> fails (quiet t) op"
  by (simp add: quiet_def)

lemma quiet_time: "time_of (quiet t) op = t"
  by (simp add: quiet_def)

lemma catalog_widget: "query_first catalog 1 = Some widget"
  by (simp add: query_first_def catalog_def widget_def)

lemma lookup_once:
  "t \<le> 86400 \<Longrightarrow> cart_lookup t once (get_cart_key ''U'' 7) 1 = Some (widget_line 1)"
  by (simp add: once_value cart_lookup_def live_def)

lemma lookup_twice:
  "t \<le> 86405 \<Longrightarrow> cart_lookup t twice (get_cart_key ''U'' 7) 1 = Some (widget_line 2)"
  by (simp add: twice_value cart_lookup_def live_def)

lemma attr_widget_line:
  "attr (widget_line q) ''quantity'' = Some (JInt q)"
  "attr (widget_line q) ''name'' = Some (JStr ''Widget'')"
  "attr (widget_line q) ''price'' = Some (JNum (999 / 100))"
  by (simp_all add: widget_line_def)

theorem add_to_cart_quantity_witness:
  "cart_lookup 0 Map.empty (get_cart_key ''U'' 7) 1 = (None :: rat json option)
   \<and> cart_lookup 0 once (get_cart_key ''U'' 7) 1 =
         Some (JObj [(''id'', JInt 1), (''name'', JStr ''Widget''),
                     (''price'', JNum (999 / 100)), (''quantity'', JInt 1)])
   \<and> (\<exists>v'. cart_lookup 5 twice (get_cart_key ''U'' 7) 1 = Some v'
          \<and> attr v' ''quantity'' = Some (JInt 2)
          \<and> attr v' ''name'' = Some (JStr ''Widget'')
          \<and> attr v' ''price'' = Some (JNum (999 / 100)))"
proof -
  have o: "time_of (quiet t) HSET \<le> time_of (quiet t) EXPIRE" for t by (simp add: quiet_def)
  have e: "cart_lookup 0 Map.empty (get_cart_key ''U'' 7) 1 = (None :: rat json option)"
    by (simp add: cart_lookup_def live_def)
  have a1: "cart_lookup 0 once (get_cart_key ''U'' 7) 1 =
         Some (JObj [(''id'', JInt 1), (''name'', JStr ''Widget''),
                     (''price'', JNum (999 / 100)), (''quantity'', JInt 1)])"
    using add_to_cart_quantity [where verify_token = user_U and token = "''token''"
            and e = "quiet 0" and c = Map.empty,
            OF user_U_ok catalog_widget quiet_ok quiet_ok quiet_ok o] e
    by (simp add: once_def widget_def quiet_time)
  have "\<exists>v'. cart_lookup 5 twice (get_cart_key ''U'' 7) 1 = Some v'
          \<and> attr v' ''quantity'' = Some (JInt (1 + 1))
          \<and> attr v' ''name'' = attr (widget_line 1) ''name''
          \<and> attr v' ''price'' = attr (widget_line 1) ''price''"
    using add_to_cart_quantity [where verify_token = user_U and token = "''token''"
            and e = "quiet 5" and c = once,
            OF user_U_ok catalog_widget quiet_ok quiet_ok quiet_ok o] lookup_once [of 5]
    by (simp add: twice_def quiet_time attr_widget_line)
  then show ?thesis using e a1 by (simp add: attr_widget_line)
qed

section \<open>Facts about reading a whole cart\<close>

lemma decode_all_ok:
  "set fs \<subseteq> fst ` set cart \<Longrightarrow> decode_all cart fs = Inr (map (\<lambda>f. the (map_of cart f)) fs)"
proof (induction fs)
  case Nil
  then show ?case by simp
next
  case (Cons f fs)
  then have "f \<in> fst ` set cart" by simp
  then obtain v where "map_of cart f = Some v"
    using map_of_eq_None_iff [of cart f] by (cases "map_of cart f") auto
  with Cons show ?case by (simp add: and_then_def)
qed

lemma lookup_values:
  "(\<lambda>f. the (map_of cart f)) ` fst ` set cart = {v. \<exists>f. map_of cart f = Some v}"
proof (intro set_eqI iffI)
  fix v assume "v \<in> (\<lambda>f. the (map_of cart f)) ` fst ` set cart"
  then obtain f where f: "f \<in> fst ` set cart" and v: "v = the (map_of cart f)" by blast
  from f obtain w where "map_of cart f = Some w"
    using map_of_eq_None_iff [of cart f] by (cases "map_of cart f") auto
  with v show "v \<in> {v. \<exists>f. map_of cart f = Some v}" by auto
next
  fix v assume "v \<in> {v. \<exists>f. map_of cart f = Some v}"
  then obtain f where m: "map_of cart f = Some v" by blast
  then have "f \<in> fst ` set cart" by (metis map_of_eq_None_iff option.distinct(1))
  with m show "v \<in> (\<lambda>f. the (map_of cart f)) ` fst ` set cart" by force
qed

lemma cart_lookup_items: "cart_lookup t c k = map_of (cart_items t c k)"
  by (auto simp: cart_lookup_def cart_items_def fun_eq_iff split: option.splits)

lemma hgetall_items:
  "hgetall e c k =
     (if fails e HGETALL then Inl RedisError else Inr (cart_items (time_of e HGETALL) c k))"
  by (simp add: hgetall_def cart_items_def)

lemma view_cart_ok:
  assumes "verify_token token = Inr ui" "\<not> fails e HGETALL"
  shows "view_cart e verify_token token c =
           Inr (map (\<lambda>f. the (cart_lookup (time_of e HGETALL) c
                                 (get_cart_key (sub ui) (user_id ui)) f))
                  (map fst (cart_items (time_of e HGETALL) c (get_cart_key (sub ui) (user_id ui)))))"
  using assms
  by (simp add: view_cart_def hgetall_items and_then_def decode_all_ok cart_lookup_items Let_def)

lemma view_cart_values:
  assumes "verify_token token = Inr ui" "\<not> fails e HGETALL"
  shows "\<exists>vs. view_cart e verify_token token c = Inr vs
           \<and> set vs = {v. \<exists>f. cart_lookup (time_of e HGETALL) c
                                (get_cart_key (sub ui) (user_id ui)) f = Some v}"
proof -
  let ?k = "get_cart_key (sub ui) (user_id ui)"
  let ?t = "time_of e HGETALL"
  let ?vs = "map (\<lambda>f. the (cart_lookup ?t c ?k f)) (map fst (cart_items ?t c ?k))"
  have "view_cart e verify_token token c = Inr ?vs"
    using view_cart_ok [where verify_token = verify_token and token = token, OF assms] .
  moreover have "set ?vs = {v. \<exists>f. cart_lookup ?t c ?k f = Some v}"
    using lookup_values [of "cart_items ?t c ?k"] by (simp add: cart_lookup_items image_image)
  ultimately show ?thesis by blast
qed

section \<open>Viewing a cart\<close>

text \<open>
  Claim C5. For an authenticated user and a cache that answers, \<^verbatim>\<open>view_cart\<close> returns
  the decoded line items of the user's cart, one for each field of the mapping, and it
  returns the empty list, not an error, when the cart has expired or has no entries.
\<close>

theorem view_cart_all_items:
  assumes "verify_token token = Inr ui" "\<not> fails e HGETALL"
  shows "\<exists>vs. view_cart e verify_token token c = Inr vs
           \<and> set vs = {v. \<exists>f. cart_lookup (time_of e HGETALL) c
                                (get_cart_key (sub ui) (user_id ui)) f = Some v}
           \<and> length vs = length (cart_items (time_of e HGETALL) c
                                    (get_cart_key (sub ui) (user_id ui)))
           \<and> (live (time_of e HGETALL) c (get_cart_key (sub ui) (user_id ui)) = None
                \<or> cart_items (time_of e HGETALL) c (get_cart_key (sub ui) (user_id ui)) = []
              \<longrightarrow> vs = [])"
proof -
  let ?k = "get_cart_key (sub ui) (user_id ui)"
  let ?t = "time_of e HGETALL"
  let ?vs = "map (\<lambda>f. the (cart_lookup ?t c ?k f)) (map fst (cart_items ?t c ?k))"
  have "view_cart e verify_token token c = Inr ?vs"
    using view_cart_ok [where verify_token = verify_token and token = token, OF assms] .
  moreover have "set ?vs = {v. \<exists>f. cart_lookup ?t c ?k f = Some v}"
    using lookup_values [of "cart_items ?t c ?k"] by (simp add: cart_lookup_items image_image)
  moreover have "length ?vs = length (cart_items ?t c ?k)" by simp
  moreover have "live ?t c ?k = None \<or> cart_items ?t c ?k = [] \<longrightarrow> ?vs = []"
    by (auto simp: cart_items_def)
  ultimately show ?thesis by blast
qed

lemma live_once_expired: "86400 < t \<Longrightarrow> live t once (get_cart_key ''U'' 7) = None"
  by (simp add: once_value live_def)

lemma items_twice:
  "t \<le> 86405 \<Longrightarrow> cart_items t twice (get_cart_key ''U'' 7) = [(1, widget_line 2)]"
  by (simp add: twice_value cart_items_def live_def)

theorem view_cart_all_items_witness:
  "view_cart (quiet 10) user_U ''token'' twice = Inr [widget_line 2]
   \<and> view_cart (quiet 86401) user_U ''token'' once = Inr []
   \<and> view_cart (quiet 0) user_U ''token'' (Map.empty :: rat cache) = Inr []"
proof (intro conjI)
  obtain vs where v: "view_cart (quiet 10) user_U ''token'' twice = Inr vs"
    and s: "set vs = {v. \<exists>f. cart_lookup 10 twice (get_cart_key ''U'' 7) f = Some v}"
    and l: "length vs = length (cart_items 10 twice (get_cart_key ''U'' 7))"
    using view_cart_all_items [where verify_token = user_U and token = "''token''"
            and e = "quiet 10" and c = twice, OF user_U_ok quiet_ok]
    by (auto simp: quiet_time)
  from l have "length vs = 1" by (simp add: items_twice)
  then obtain a where a: "vs = [a]" by (cases vs) auto
  have "widget_line 2 \<in> set vs" using s lookup_twice [of 10] by auto
  with a v show "view_cart (quiet 10) user_U ''token'' twice = Inr [widget_line 2]" by simp
next
  show "view_cart (quiet 86401) user_U ''token'' once = Inr []"
    using view_cart_all_items [where verify_token = user_U and token = "''token''"
            and e = "quiet 86401" and c = once, OF user_U_ok quiet_ok]
      live_once_expired [of 86401]
    by (auto simp: quiet_time)
next
  have "live 0 (Map.empty :: rat cache) (get_cart_key ''U'' 7) = None"
    by (simp add: live_def)
  then show "view_cart (quiet 0) user_U ''token'' (Map.empty :: rat cache) = Inr []"
    using view_cart_all_items [where verify_token = user_U and token = "''token''"
            and e = "quiet 0" and c = "Map.empty :: rat cache", OF user_U_ok quiet_ok]
    by (auto simp: quiet_time)
qed

section \<open>Removing from a cart\<close>

lemma remove_decrement:
  assumes "verify_token token = Inr ui" "\<not> fails e HGET" "\<not> fails e HSET"
    and "cart_lookup (time_of e HGET) c (get_cart_key (sub ui) (user_id ui)) i = Some (JObj kvs)"
    and "map_of kvs ''quantity'' = Some (JInt q)" "1 < q"
  shows "remove_item_from_cart e verify_token i token c =
           (Inr ''The item was removed from your cart.'',
            snd (hset e c (get_cart_key (sub ui) (user_id ui)) i
                   (JObj (dict_update ''quantity'' (JInt (q - 1)) kvs))))"
proof -
  have h: "hset e c k f v = (Inr (), snd (hset e c k f v))" for k f v
    using assms(3) by (simp add: hset_def)
  show ?thesis
    using assms(1,2,4,5,6)
    apply (simp add: remove_item_from_cart_def remove_item_try_def hget_cart_lookup
             json_dumps_def Let_def and_then_def)
    apply (subst h)
    apply simp
    done
qed

lemma remove_delete:
  assumes "verify_token token = Inr ui" "\<not> fails e HGET" "\<not> fails e HDEL"
    and "cart_lookup (time_of e HGET) c (get_cart_key (sub ui) (user_id ui)) i = Some (JObj kvs)"
    and "map_of kvs ''quantity'' = Some (JInt q)" "q \<le> 1"
  shows "remove_item_from_cart e verify_token i token c =
           (Inr ''The item was removed from your cart.'',
            snd (hdel e c (get_cart_key (sub ui) (user_id ui)) i))"
proof -
  have h: "hdel e c k f = (Inr (), snd (hdel e c k f))" for k f
    using assms(3) by (simp add: hdel_def)
  show ?thesis
    using assms(1,2,4,5,6)
    apply (simp add: remove_item_from_cart_def remove_item_try_def hget_cart_lookup
             json_dumps_def Let_def and_then_def)
    apply (subst h)
    apply simp
    done
qed

text \<open>After a \<^verbatim>\<open>hdel\<close> that the cache performs, no later lookup finds the field.\<close>

lemma cart_lookup_after_hdel:
  assumes "\<not> fails e HDEL" "time_of e HDEL \<le> t"
  shows "cart_lookup t (snd (hdel e c k f)) k f = None"
proof (cases "live (time_of e HDEL) c k")
  case None
  then show ?thesis using assms(2) by (simp add: hdel_gone cart_lookup_later)
next
  case (Some x)
  then show ?thesis using assms(1) by (simp add: cart_lookup_hdel)
qed

text \<open>
  Claim C2. For an authenticated user, a cache that answers and a line item that the read
  finds in the user's cart with an integer quantity: when the quantity is more than 1,
  removing the item writes the entry back with the quantity less 1 and every other
  attribute as it was; when the quantity is 1 (or less), removing deletes the entry, no
  lookup from the instant of the delete on finds it, and a \<^verbatim>\<open>view_cart\<close> that comes
  later (or at any instant, when the cart had not lapsed before the delete) returns
  exactly the line items of the other item ids.
\<close>

theorem remove_item_from_cart_quantity:
  assumes "verify_token token = Inr ui"
    and "\<not> fails e HGET" "\<not> fails e HSET" "\<not> fails e HDEL"
    and "cart_lookup (time_of e HGET) c (get_cart_key (sub ui) (user_id ui)) i = Some v"
    and "attr v ''quantity'' = Some (JInt q)"
  shows
    "(1 < q \<longrightarrow>
        (\<exists>v'. cart_lookup (time_of e HSET)
                  (snd (remove_item_from_cart e verify_token i token c))
                  (get_cart_key (sub ui) (user_id ui)) i = Some v'
             \<and> attr v' ''quantity'' = Some (JInt (q - 1))
             \<and> (\<forall>a. a \<noteq> ''quantity'' \<longrightarrow> attr v' a = attr v a)))
     \<and> (q \<le> 1 \<longrightarrow>
          (\<forall>t. time_of e HDEL \<le> t \<longrightarrow>
              cart_lookup t (snd (remove_item_from_cart e verify_token i token c))
                (get_cart_key (sub ui) (user_id ui)) i = None)
          \<and> (\<forall>e'. \<not> fails e' HGETALL
                  \<and> (time_of e HDEL \<le> time_of e' HGETALL
                      \<or> live (time_of e HDEL) c (get_cart_key (sub ui) (user_id ui)) \<noteq> None)
                \<longrightarrow>
                (\<exists>vs. view_cart e' verify_token token
                         (snd (remove_item_from_cart e verify_token i token c)) = Inr vs
                    \<and> set vs = {w. \<exists>f. f \<noteq> i
                          \<and> cart_lookup (time_of e' HGETALL) c
                               (get_cart_key (sub ui) (user_id ui)) f = Some w})))"
proof -
  let ?k = "get_cart_key (sub ui) (user_id ui)"
  let ?c' = "snd (remove_item_from_cart e verify_token i token c)"
  from assms(6) obtain kvs where kvs: "v = JObj kvs" "map_of kvs ''quantity'' = Some (JInt q)"
    using attr_quantity_obj by blast
  have lk: "cart_lookup (time_of e HGET) c ?k i = Some (JObj kvs)" using assms(5) kvs by simp
  have dec: "\<exists>v'. cart_lookup (time_of e HSET) ?c' ?k i = Some v'
             \<and> attr v' ''quantity'' = Some (JInt (q - 1))
             \<and> (\<forall>a. a \<noteq> ''quantity'' \<longrightarrow> attr v' a = attr v a)" if "1 < q"
  proof -
    have "?c' = snd (hset e c ?k i (JObj (dict_update ''quantity'' (JInt (q - 1)) kvs)))"
      using remove_decrement [where verify_token = verify_token and token = token,
              OF assms(1,2,3) lk kvs(2) that] by simp
    then have "cart_lookup (time_of e HSET) ?c' ?k i
                 = Some (JObj (dict_update ''quantity'' (JInt (q - 1)) kvs))"
      using assms(3) by (simp add: cart_lookup_hset)
    then show ?thesis using kvs by (simp add: map_of_dict_update)
  qed
  have del: "(\<forall>t. time_of e HDEL \<le> t \<longrightarrow> cart_lookup t ?c' ?k i = None)
          \<and> (\<forall>e'. \<not> fails e' HGETALL
                  \<and> (time_of e HDEL \<le> time_of e' HGETALL \<or> live (time_of e HDEL) c ?k \<noteq> None)
                \<longrightarrow>
                (\<exists>vs. view_cart e' verify_token token ?c' = Inr vs
                    \<and> set vs = {w. \<exists>f. f \<noteq> i
                          \<and> cart_lookup (time_of e' HGETALL) c ?k f = Some w}))" if "q \<le> 1"
  proof -
    have c': "?c' = snd (hdel e c ?k i)"
      using remove_delete [where verify_token = verify_token and token = token,
              OF assms(1,2,4) lk kvs(2) that] by simp
    have gone: "\<forall>t. time_of e HDEL \<le> t \<longrightarrow> cart_lookup t ?c' ?k i = None"
      using assms(4) by (simp add: c' cart_lookup_after_hdel)
    have look: "cart_lookup t ?c' ?k = (cart_lookup t c ?k)(i := None)"
      if "time_of e HDEL \<le> t \<or> live (time_of e HDEL) c ?k \<noteq> None" for t
    proof (cases "live (time_of e HDEL) c ?k")
      case None
      with that have le: "time_of e HDEL \<le> t" by simp
      have "cart_lookup t c ?k f = None" for f
        using None le by (rule cart_lookup_later)
      then have "cart_lookup t c ?k = (cart_lookup t c ?k)(i := None)" by (simp add: fun_eq_iff)
      with None show ?thesis by (simp add: c' hdel_gone)
    next
      case (Some x)
      then show ?thesis using assms(4) by (simp add: c' cart_lookup_hdel)
    qed
    have "\<exists>vs. view_cart e' verify_token token ?c' = Inr vs
                    \<and> set vs = {w. \<exists>f. f \<noteq> i
                          \<and> cart_lookup (time_of e' HGETALL) c ?k f = Some w}"
      if ne: "\<not> fails e' HGETALL
              \<and> (time_of e HDEL \<le> time_of e' HGETALL \<or> live (time_of e HDEL) c ?k \<noteq> None)"
      for e'
    proof -
      from ne have nf: "\<not> fails e' HGETALL" by simp
      obtain vs where "view_cart e' verify_token token ?c' = Inr vs"
        and "set vs = {w. \<exists>f. cart_lookup (time_of e' HGETALL) ?c' ?k f = Some w}"
        using view_cart_values [where verify_token = verify_token and token = token
                and c = ?c', OF assms(1) nf] by blast
      moreover have "{w. \<exists>f. cart_lookup (time_of e' HGETALL) ?c' ?k f = Some w}
                       = {w. \<exists>f. f \<noteq> i \<and> cart_lookup (time_of e' HGETALL) c ?k f = Some w}"
        using ne by (auto simp: look)
      ultimately show ?thesis by auto
    qed
    with gone show ?thesis by blast
  qed
  from dec del show ?thesis by blast
qed

lemma lookup_once_other:
  "f \<noteq> 1 \<Longrightarrow> cart_lookup t once (get_cart_key ''U'' 7) f = None"
  by (simp add: once_value cart_lookup_def live_def split: option.splits)

theorem remove_item_from_cart_quantity_witness:
  "(\<exists>v'. cart_lookup 10 (snd (remove_item_from_cart (quiet 10) user_U 1 ''token'' twice))
             (get_cart_key ''U'' 7) 1 = Some v'
         \<and> attr v' ''quantity'' = Some (JInt 1)
         \<and> attr v' ''name'' = Some (JStr ''Widget'')
         \<and> attr v' ''price'' = Some (JNum (999 / 100)))
   \<and> cart_lookup 10 (snd (remove_item_from_cart (quiet 10) user_U 1 ''token'' once))
        (get_cart_key ''U'' 7) 1 = None
   \<and> view_cart (quiet 20) user_U ''token''
        (snd (remove_item_from_cart (quiet 10) user_U 1 ''token'' once)) = Inr []"
proof -
  note two = remove_item_from_cart_quantity [where verify_token = user_U and token = "''token''"
      and e = "quiet 10" and c = twice and i = 1 and v = "widget_line 2" and q = 2,
      OF user_U_ok quiet_ok quiet_ok quiet_ok]
  note one = remove_item_from_cart_quantity [where verify_token = user_U and token = "''token''"
      and e = "quiet 10" and c = once and i = 1 and v = "widget_line 1" and q = 1,
      OF user_U_ok quiet_ok quiet_ok quiet_ok]
  have a: "\<exists>v'. cart_lookup 10
                 (snd (remove_item_from_cart (quiet 10) user_U 1 ''token'' twice))
                 (get_cart_key ''U'' 7) 1 = Some v'
         \<and> attr v' ''quantity'' = Some (JInt 1)
         \<and> attr v' ''name'' = Some (JStr ''Widget'')
         \<and> attr v' ''price'' = Some (JNum (999 / 100))"
    using two lookup_twice [of 10] by (auto simp: attr_widget_line quiet_time)
  have b: "cart_lookup 10 (snd (remove_item_from_cart (quiet 10) user_U 1 ''token'' once))
        (get_cart_key ''U'' 7) 1 = None"
    using one lookup_once [of 10] by (simp add: attr_widget_line quiet_time)
  have all: "\<forall>e'. \<not> fails e' HGETALL
                  \<and> (time_of (quiet 10) HDEL \<le> time_of e' HGETALL
                      \<or> live (time_of (quiet 10) HDEL) once (get_cart_key ''U'' 7) \<noteq> None)
                \<longrightarrow>
                (\<exists>vs. view_cart e' user_U ''token''
                         (snd (remove_item_from_cart (quiet 10) user_U 1 ''token'' once)) = Inr vs
                    \<and> set vs = {w. \<exists>f. f \<noteq> 1
                          \<and> cart_lookup (time_of e' HGETALL) once
                               (get_cart_key ''U'' 7) f = Some w})"
    using one lookup_once [of 10] by (simp add: attr_widget_line quiet_time)
  have "\<not> fails (quiet 20) HGETALL
          \<and> (time_of (quiet 10) HDEL \<le> time_of (quiet 20) HGETALL
              \<or> live (time_of (quiet 10) HDEL) once (get_cart_key ''U'' 7) \<noteq> None)"
    by (simp add: quiet_def)
  with all have "\<exists>vs. view_cart (quiet 20) user_U ''token''
                (snd (remove_item_from_cart (quiet 10) user_U 1 ''token'' once)) = Inr vs
           \<and> set vs = {w. \<exists>f. f \<noteq> 1
                 \<and> cart_lookup (time_of (quiet 20) HGETALL) once
                      (get_cart_key ''U'' 7) f = Some w}"
    by blast
  then have "\<exists>vs. view_cart (quiet 20) user_U ''token''
                (snd (remove_item_from_cart (quiet 10) user_U 1 ''token'' once)) = Inr vs
           \<and> set vs = {w. \<exists>f. f \<noteq> 1
                 \<and> cart_lookup 20 once (get_cart_key ''U'' 7) f = Some w}"
    by (simp add: quiet_time)
  moreover have "{w. \<exists>f. f \<noteq> 1
                 \<and> cart_lookup 20 once (get_cart_key ''U'' 7) f = Some w} = {}"
    by (auto simp: lookup_once_other)
  ultimately have c: "view_cart (quiet 20) user_U ''token''
        (snd (remove_item_from_cart (quiet 10) user_U 1 ''token'' once)) = Inr []"
    by auto
  from a b c show ?thesis by blast
qed

text \<open>
  Claim C8. For an authenticated user and a cache that answers the lookup: when the item id
  is not in the user's cart (never added, or the cart has expired), the lookup yields
  \<^verbatim>\<open>None\<close>, decoding it raises a \<^verbatim>\<open>TypeError\<close> outside the \<^verbatim>\<open>try\<close>,
  the cache is left as it was, and the handler raises no \<^verbatim>\<open>HTTPException\<close> at all,
  neither the 500 of its \<^verbatim>\<open>except\<close> clause nor a 404.
\<close>

theorem remove_missing_item:
  assumes "verify_token token = Inr ui" "\<not> fails e HGET"
    and "cart_lookup (time_of e HGET) c (get_cart_key (sub ui) (user_id ui)) i = None"
  shows "remove_item_from_cart e verify_token i token c = (Inl TypeError, c)
         \<and> (\<forall>code detail. fst (remove_item_from_cart e verify_token i token c)
                 \<noteq> Inl (HTTPException code detail))"
  using assms by (simp add: remove_item_from_cart_def hget_cart_lookup)

theorem remove_missing_item_witness:
  "remove_item_from_cart (quiet 0) user_U 1 ''token'' (Map.empty :: rat cache)
      = (Inl TypeError, Map.empty)
   \<and> remove_item_from_cart (quiet 86401) user_U 1 ''token'' once = (Inl TypeError, once)
   \<and> fst (remove_item_from_cart (quiet 86401) user_U 1 ''token'' once)
        \<noteq> Inl (HTTPException 500 ''Could not delete item from the cart. Please try again later.'')"
proof -
  have a: "cart_lookup 0 (Map.empty :: rat cache) (get_cart_key ''U'' 7) 1 = None"
    by (simp add: cart_lookup_def live_def)
  have b: "cart_lookup 86401 once (get_cart_key ''U'' 7) 1 = None"
    by (simp add: cart_lookup_def live_once_expired)
  show ?thesis
    using remove_missing_item [where verify_token = user_U and token = "''token''"
            and e = "quiet 0" and c = "Map.empty :: rat cache" and i = 1, OF user_U_ok quiet_ok]
      remove_missing_item [where verify_token = user_U and token = "''token''"
            and e = "quiet 86401" and c = once and i = 1, OF user_U_ok quiet_ok]
      a b
    by (simp add: quiet_time)
qed

section \<open>Cache failures while adding\<close>

lemma add_to_cart_try_fails:
  assumes "fails e HGET \<or> fails e HSET \<or> fails e EXPIRE"
  shows "\<exists>x. fst (add_to_cart_try e c k it) = Inl x"
  using assms
  by (auto simp: add_to_cart_try_def hget_def hset_def expire_def split: sum.splits)

lemma add_to_cart_error:
  assumes "verify_token token = Inr ui" "query_first db i = Some it"
    and "fst (add_to_cart_try e c (get_cart_key (sub ui) (user_id ui)) it) = Inl x"
  shows "add_to_cart e verify_token db i token c =
           (Inl (HTTPException 500
              (''There was a problem adding '' @ name it @ '' to cart. Please try again later.'')),
            snd (add_to_cart_try e c (get_cart_key (sub ui) (user_id ui)) it))"
  using assms
  by (cases "add_to_cart_try e c (get_cart_key (sub ui) (user_id ui)) it")
     (simp add: add_to_cart_def)

lemma add_to_cart_try_expire_fails:
  assumes "\<not> fails e HGET" "\<not> fails e HSET" "fails e EXPIRE"
    and "new_item_info (cart_lookup (time_of e HGET) c k (item_id it)) it = Inr info"
  shows "snd (add_to_cart_try e c k it) = snd (hset e c k (item_id it) info)"
  using assms
  by (simp add: add_to_cart_try_def hget_cart_lookup json_dumps_def hset_def expire_def)

lemma add_to_cart_try_early_fails:
  assumes "fails e HGET \<or> fails e HSET"
  shows "snd (add_to_cart_try e c k it) = c"
  using assms
  by (auto simp: add_to_cart_try_def hget_def hset_def split: sum.splits)

text \<open>
  Claim C9. For an authenticated user and an existing item: when the cache client raises
  at the read, the write or the expiry step of \<^verbatim>\<open>add_to_cart\<close>, the handler raises the
  500 \<^verbatim>\<open>HTTPException\<close> whose detail names the item. Nothing is rolled back: a failure
  at the read or the write leaves the cache as it was, and after a failure at the expiry
  step the line item that was just written is still in the cart.
\<close>

theorem add_to_cart_cache_failure:
  assumes "verify_token token = Inr ui" "query_first db i = Some it"
    and "fails e HGET \<or> fails e HSET \<or> fails e EXPIRE"
  shows "fst (add_to_cart e verify_token db i token c) =
           Inl (HTTPException 500
             (''There was a problem adding '' @ name it @ '' to cart. Please try again later.''))
         \<and> (fails e HGET \<or> fails e HSET \<longrightarrow> snd (add_to_cart e verify_token db i token c) = c)
         \<and> (\<forall>info. \<not> fails e HGET \<and> \<not> fails e HSET
               \<and> new_item_info (cart_lookup (time_of e HGET) c
                     (get_cart_key (sub ui) (user_id ui)) i) it = Inr info
              \<longrightarrow> cart_lookup (time_of e HSET) (snd (add_to_cart e verify_token db i token c))
                     (get_cart_key (sub ui) (user_id ui)) i = Some info)"
proof -
  let ?k = "get_cart_key (sub ui) (user_id ui)"
  have id: "item_id it = i" using assms(2) by (rule query_first_id)
  obtain x where x: "fst (add_to_cart_try e c ?k it) = Inl x"
    using add_to_cart_try_fails [OF assms(3)] by blast
  note r = add_to_cart_error [where verify_token = verify_token and token = token,
      OF assms(1,2) x]
  have 1: "fst (add_to_cart e verify_token db i token c) =
           Inl (HTTPException 500
             (''There was a problem adding '' @ name it @ '' to cart. Please try again later.''))"
    by (simp add: r)
  have 2: "fails e HGET \<or> fails e HSET \<longrightarrow> snd (add_to_cart e verify_token db i token c) = c"
    by (simp add: r add_to_cart_try_early_fails)
  have 3: "cart_lookup (time_of e HSET) (snd (add_to_cart e verify_token db i token c)) ?k i
             = Some info"
    if h: "\<not> fails e HGET \<and> \<not> fails e HSET
            \<and> new_item_info (cart_lookup (time_of e HGET) c ?k i) it = Inr info" for info
  proof -
    from h assms(3) have ex: "fails e EXPIRE" by blast
    have "snd (add_to_cart_try e c ?k it) = snd (hset e c ?k i info)"
      using add_to_cart_try_expire_fails [of e c ?k it info] h ex id by simp
    then show ?thesis using h by (simp add: r cart_lookup_hset)
  qed
  from 1 2 3 show ?thesis by blast
qed

theorem add_to_cart_cache_failure_witness:
  "fst (add_to_cart (expire_down 0) user_U catalog 1 ''token'' (Map.empty :: rat cache)) =
      Inl (HTTPException 500 ''There was a problem adding Widget to cart. Please try again later.'')
   \<and> cart_lookup 0
        (snd (add_to_cart (expire_down 0) user_U catalog 1 ''token'' (Map.empty :: rat cache)))
        (get_cart_key ''U'' 7) 1 = Some (widget_line 1)"
proof -
  have f: "fails (expire_down 0) HGET \<or> fails (expire_down 0) HSET \<or> fails (expire_down 0) EXPIRE"
    by (simp add: expire_down_def)
  have n: "\<not> fails (expire_down 0) HGET \<and> \<not> fails (expire_down 0) HSET
           \<and> new_item_info (cart_lookup (time_of (expire_down 0) HGET) (Map.empty :: rat cache)
                 (get_cart_key (sub \<lparr>sub = ''U'', user_id = 7\<rparr>) (user_id \<lparr>sub = ''U'', user_id = 7\<rparr>)) 1)
                 widget = Inr (widget_line 1)"
    by (simp add: expire_down_def cart_lookup_def live_def new_item_info_def widget_def
          widget_line_def)
  have t: "time_of (expire_down 0) HSET = 0" by (simp add: expire_down_def)
  show ?thesis
    using add_to_cart_cache_failure [where verify_token = user_U and token = "''token''"
            and e = "expire_down 0" and c = "Map.empty :: rat cache",
            OF user_U_ok catalog_widget f] n t
    by (simp add: widget_def)
qed

section \<open>What a request leaves alone\<close>

lemma add_to_cart_try_frame:
  assumes "f \<noteq> item_id it" "time_of e HSET \<le> t" "t \<le> time_of e EXPIRE"
  shows "cart_lookup t (snd (add_to_cart_try e c k it)) k' f = cart_lookup t c k' f"
proof (cases "hget e c k (item_id it)")
  case (Inl x)
  then show ?thesis by (simp add: add_to_cart_try_def)
next
  case (Inr existing)
  show ?thesis
  proof (cases "new_item_info existing it")
    case (Inl x)
    with Inr show ?thesis by (simp add: add_to_cart_try_def)
  next
    case info: (Inr info)
    obtain r c1 where h: "hset e c k (item_id it) info = (r, c1)"
      by (cases "hset e c k (item_id it) info")
    then have c1: "c1 = snd (hset e c k (item_id it) info)" by simp
    have l1: "cart_lookup t c1 k' f = cart_lookup t c k' f"
      using assms(1,2) by (simp add: c1 cart_lookup_hset_other)
    show ?thesis
    proof (cases r)
      case (Inl x)
      with Inr info h l1 show ?thesis by (simp add: add_to_cart_try_def json_dumps_def)
    next
      case (Inr u)
      with \<open>hget e c k (item_id it) = Inr existing\<close> info h l1 assms(3) show ?thesis
        by (simp add: add_to_cart_try_def json_dumps_def cart_lookup_expire)
    qed
  qed
qed

lemma remove_item_try_frame:
  assumes "f \<noteq> i" "time_of e HSET \<le> t"
  shows "cart_lookup t (snd (remove_item_try e c k i it)) k' f = cart_lookup t c k' f"
proof (cases "and_then (getitem it ''quantity'') py_gt1")
  case (Inl x)
  then show ?thesis by (simp add: remove_item_try_def)
next
  case (Inr b)
  show ?thesis
  proof (cases b)
    case True
    with Inr assms show ?thesis
      by (simp add: remove_item_try_def cart_lookup_hset_other split: sum.splits)
  next
    case False
    with Inr assms show ?thesis
      by (simp add: remove_item_try_def cart_lookup_hdel_other)
  qed
qed

lemma snd_add_to_cart:
  "verify_token token = Inr ui \<Longrightarrow> query_first db i = Some it \<Longrightarrow>
     snd (add_to_cart e verify_token db i token c)
       = snd (add_to_cart_try e c (get_cart_key (sub ui) (user_id ui)) it)"
  by (simp add: add_to_cart_def Let_def split: sum.splits prod.splits)

lemma snd_remove_item_from_cart:
  "verify_token token = Inr ui \<Longrightarrow>
     snd (remove_item_from_cart e verify_token i token c)
       = (case hget e c (get_cart_key (sub ui) (user_id ui)) i of
            Inl x \<Rightarrow> c
          | Inr got \<Rightarrow>
              (case json_loads got of
                 Inl x \<Rightarrow> c
               | Inr it \<Rightarrow> snd (remove_item_try e c (get_cart_key (sub ui) (user_id ui)) i it)))"
  by (simp add: remove_item_from_cart_def Let_def split: sum.splits prod.splits)

text \<open>
  Claim C10. Whatever the outcome of \<^verbatim>\<open>add_to_cart\<close> or of
  \<^verbatim>\<open>remove_item_from_cart\<close> for an item id, the line item stored under any other
  item id, in the same cart or in any other, is as it was before the request: a lookup at
  any instant from the write to the \<^verbatim>\<open>expire\<close> command of an add, or at any instant
  from the write of a remove on, finds under the other ids what it would have found in
  the cache before the request.
\<close>

theorem other_items_unchanged:
  assumes "f \<noteq> i"
  shows "(time_of e HSET \<le> t \<and> t \<le> time_of e EXPIRE \<longrightarrow>
            cart_lookup t (snd (add_to_cart e verify_token db i token c)) k f
              = cart_lookup t c k f)
         \<and> (time_of e HSET \<le> t \<longrightarrow>
              cart_lookup t (snd (remove_item_from_cart e verify_token i token c)) k f
                = cart_lookup t c k f)"
proof (intro conjI impI)
  assume t: "time_of e HSET \<le> t \<and> t \<le> time_of e EXPIRE"
  show "cart_lookup t (snd (add_to_cart e verify_token db i token c)) k f = cart_lookup t c k f"
  proof (cases "verify_token token")
    case (Inl x)
    then show ?thesis by (simp add: add_to_cart_def)
  next
    case (Inr ui)
    show ?thesis
    proof (cases "query_first db i")
      case None
      with Inr show ?thesis by (simp add: add_to_cart_def)
    next
      case (Some it)
      then have "f \<noteq> item_id it" using assms query_first_id by blast
      then have "cart_lookup t (snd (add_to_cart_try e c (get_cart_key (sub ui) (user_id ui)) it)) k f
                   = cart_lookup t c k f"
        using t by (simp add: add_to_cart_try_frame)
      with Inr Some show ?thesis
        by (simp add: snd_add_to_cart [where verify_token = verify_token and token = token])
    qed
  qed
next
  assume t: "time_of e HSET \<le> t"
  show "cart_lookup t (snd (remove_item_from_cart e verify_token i token c)) k f
             = cart_lookup t c k f"
  proof (cases "verify_token token")
    case (Inl x)
    then show ?thesis by (simp add: remove_item_from_cart_def)
  next
    case (Inr ui)
    have "cart_lookup t (snd (remove_item_try e c (get_cart_key (sub ui) (user_id ui)) i it)) k f
            = cart_lookup t c k f" for it
      using assms t by (rule remove_item_try_frame)
    with Inr show ?thesis
      by (simp add: snd_remove_item_from_cart [where verify_token = verify_token and token = token]
            split: sum.splits)
  qed
qed

theorem other_items_unchanged_witness:
  "(1::int) \<noteq> 2
   \<and> cart_lookup 5 both (get_cart_key ''U'' 7) 1 = Some (widget_line 1)
   \<and> cart_lookup 5 (snd (remove_item_from_cart (quiet 5) user_U 2 ''token'' both))
        (get_cart_key ''U'' 7) 1 = Some (widget_line 1)"
  using other_items_unchanged [of 1 2 "quiet 5" 5 user_U catalog "''token''" once
          "get_cart_key ''U'' 7"]
    other_items_unchanged [of 1 2 "quiet 5" 5 user_U catalog "''token''" both
          "get_cart_key ''U'' 7"]
    lookup_once [of 5]
  by (simp add: both_def quiet_time)

section \<open>The expiry of a cart\<close>

lemma hset_then_expire:
  assumes "\<not> fails e HSET" "\<not> fails e EXPIRE" "0 < n"
    and "\<not> lapses_between c k (time_of e HSET) (time_of e EXPIRE)"
  shows "\<exists>x. snd (expire e (snd (hset e c k f v)) k n) k = Some x
             \<and> expires_at x = Some (time_of e EXPIRE + n)"
  using assms
  by (auto simp: hset_def expire_def live_def lapses_between_def split: option.splits if_splits)

lemma add_to_cart_success:
  assumes "verify_token token = Inr ui" "fst (add_to_cart e verify_token db i token c) = Inr msg"
  shows "\<exists>it info. query_first db i = Some it
           \<and> \<not> fails e HGET \<and> \<not> fails e HSET \<and> \<not> fails e EXPIRE
           \<and> new_item_info (cart_lookup (time_of e HGET) c
                 (get_cart_key (sub ui) (user_id ui)) i) it = Inr info"
proof (cases "query_first db i")
  case None
  with assms show ?thesis by (simp add: add_to_cart_def)
next
  case (Some it)
  let ?k = "get_cart_key (sub ui) (user_id ui)"
  have id: "item_id it = i" using Some by (rule query_first_id)
  have nofail: "\<not> (fails e HGET \<or> fails e HSET \<or> fails e EXPIRE)"
  proof
    assume "fails e HGET \<or> fails e HSET \<or> fails e EXPIRE"
    then obtain x where "fst (add_to_cart_try e c ?k it) = Inl x"
      using add_to_cart_try_fails by blast
    then have "fst (add_to_cart e verify_token db i token c) = Inl (HTTPException 500
              (''There was a problem adding '' @ name it @ '' to cart. Please try again later.''))"
      using add_to_cart_error [where verify_token = verify_token and token = token,
          OF assms(1) Some] by simp
    with assms(2) show False by simp
  qed
  have "\<exists>info. new_item_info (cart_lookup (time_of e HGET) c ?k i) it = Inr info"
  proof (cases "new_item_info (cart_lookup (time_of e HGET) c ?k i) it")
    case (Inl x)
    then have "fst (add_to_cart_try e c ?k it) = Inl x"
      using nofail by (simp add: add_to_cart_try_def hget_cart_lookup id)
    then have "fst (add_to_cart e verify_token db i token c) = Inl (HTTPException 500
              (''There was a problem adding '' @ name it @ '' to cart. Please try again later.''))"
      using add_to_cart_error [where verify_token = verify_token and token = token,
          OF assms(1) Some] by simp
    with assms(2) show ?thesis by simp
  next
    case (Inr info)
    then show ?thesis by blast
  qed
  with Some nofail show ?thesis by blast
qed

lemma hset_keeps_expiry:
  "live (time_of e HSET) c k \<noteq> None \<Longrightarrow> snd (hset e c k f v) k' = Some x' \<Longrightarrow>
     \<exists>x. c k' = Some x \<and> expires_at x' = expires_at x"
  by (auto simp: hset_def live_def split: option.splits if_splits)

lemma hdel_keeps_expiry:
  "snd (hdel e c k f) k' = Some x' \<Longrightarrow> \<exists>x. c k' = Some x \<and> expires_at x' = expires_at x"
  by (auto simp: hdel_def live_def Let_def split: option.splits if_splits)

lemma still_live:
  "live t1 c k \<noteq> None \<Longrightarrow> \<not> lapses_between c k t1 t2 \<Longrightarrow> live t2 c k \<noteq> None"
  by (auto simp: live_def lapses_between_def split: option.splits if_splits)

lemma remove_item_try_keeps_expiry:
  assumes "live (time_of e HSET) c k \<noteq> None" "snd (remove_item_try e c k i it) k' = Some x'"
  shows "\<exists>x. c k' = Some x \<and> expires_at x' = expires_at x"
proof (cases "and_then (getitem it ''quantity'') py_gt1")
  case (Inl x)
  with assms(2) show ?thesis by (simp add: remove_item_try_def)
next
  case (Inr b)
  show ?thesis
  proof (cases b)
    case True
    show ?thesis
    proof (cases "and_then (get_default it ''quantity'' (JInt 1))
                    (\<lambda>q. and_then (py_sub1 q) (\<lambda>q'. setitem it ''quantity'' q'))")
      case (Inl x)
      with Inr True assms(2) show ?thesis by (simp add: remove_item_try_def)
    next
      case it': (Inr it')
      with Inr True assms(2) have "snd (hset e c k i (json_dumps it')) k' = Some x'"
        by (simp add: remove_item_try_def)
      with assms(1) show ?thesis by (rule hset_keeps_expiry)
    qed
  next
    case False
    with Inr assms(2) have "snd (hdel e c k i) k' = Some x'"
      by (simp add: remove_item_try_def)
    then show ?thesis by (rule hdel_keeps_expiry)
  qed
qed

lemma add_widget_again:
  "fst (add_to_cart (quiet 5) user_U catalog 1 ''token'' once) = Inr ''Item: Widget was added to cart!''"
proof -
  have n: "new_item_info (cart_lookup (time_of (quiet 5) HGET) once
              (get_cart_key (sub \<lparr>sub = ''U'', user_id = 7\<rparr>) (user_id \<lparr>sub = ''U'', user_id = 7\<rparr>)) 1)
              widget = Inr (widget_line 2)"
    using lookup_once [of 5]
    by (simp add: new_item_info_def widget_line_def and_then_def quiet_time)
  show ?thesis
    using add_to_cart_ok [where verify_token = user_U and token = "''token''" and e = "quiet 5"
        and c = once, OF user_U_ok catalog_widget quiet_ok quiet_ok quiet_ok n]
    by (simp add: widget_def)
qed

lemma remove_from_twice:
  "snd (remove_item_from_cart (quiet 10) user_U 1 ''token'' twice)
     = [get_cart_key ''U'' 7 \<mapsto> \<lparr>hash_fields = [(1, widget_line 1)], expires_at = Some 86405\<rparr>]"
  by (simp add: twice_value remove_item_from_cart_def remove_item_try_def user_U_def
        hget_def hset_def live_def quiet_def json_dumps_def widget_line_def and_then_def)

text \<open>
  Claim C7, as stated, fails: the commands of a request are separate round trips. A
  remove that reads the line item at 86404 and writes it back at 86406, when the cart
  expired at 86405, succeeds and leaves a cart with no expiry at all; an add that
  writes at 86399 and sends \<^verbatim>\<open>expire\<close> at 86401, when the cart expired at 86400,
  succeeds and leaves no cart expiring 24 hours later.
\<close>

theorem cart_expiry_counterexample:
  "fst (remove_item_from_cart late_write user_U 1 ''token'' twice)
      = Inr ''The item was removed from your cart.''
   \<and> twice (get_cart_key ''U'' 7)
        = Some \<lparr>hash_fields = [(1, widget_line 2)], expires_at = Some 86405\<rparr>
   \<and> snd (remove_item_from_cart late_write user_U 1 ''token'' twice) (get_cart_key ''U'' 7)
        = Some \<lparr>hash_fields = [(1, widget_line 1)], expires_at = None\<rparr>
   \<and> fst (add_to_cart late_expire user_U catalog 1 ''token'' once)
        = Inr ''Item: Widget was added to cart!''
   \<and> snd (add_to_cart late_expire user_U catalog 1 ''token'' once) (get_cart_key ''U'' 7)
        = Some \<lparr>hash_fields = [(1, widget_line 2)], expires_at = Some 86400\<rparr>
   \<and> time_of late_expire EXPIRE + 24 * 60 * 60 \<noteq> 86400"
proof -
  have r: "remove_item_from_cart late_write user_U 1 ''token'' twice
      = (Inr ''The item was removed from your cart.'',
         [get_cart_key ''U'' 7 \<mapsto> \<lparr>hash_fields = [(1, widget_line 1)], expires_at = None\<rparr>])"
    by (simp add: twice_value remove_item_from_cart_def remove_item_try_def user_U_def
          hget_def hset_def live_def late_write_def json_dumps_def widget_line_def and_then_def)
  have a: "add_to_cart late_expire user_U catalog 1 ''token'' once
      = (Inr ''Item: Widget was added to cart!'',
         [get_cart_key ''U'' 7 \<mapsto> \<lparr>hash_fields = [(1, widget_line 2)], expires_at = Some 86400\<rparr>])"
    by (simp add: once_value add_to_cart_def add_to_cart_try_def user_U_def query_first_def
          catalog_def widget_def hget_def hset_def expire_def live_def late_expire_def
          new_item_info_def json_dumps_def widget_line_def and_then_def)
  have t: "twice (get_cart_key ''U'' 7)
        = Some \<lparr>hash_fields = [(1, widget_line 2)], expires_at = Some 86405\<rparr>"
    by (simp add: twice_value)
  have n: "time_of late_expire EXPIRE + 24 * 60 * 60 \<noteq> 86400"
    by (simp add: late_expire_def)
  have "fst (remove_item_from_cart late_write user_U 1 ''token'' twice)
      = Inr ''The item was removed from your cart.''"
    and "snd (remove_item_from_cart late_write user_U 1 ''token'' twice) (get_cart_key ''U'' 7)
        = Some \<lparr>hash_fields = [(1, widget_line 1)], expires_at = None\<rparr>"
    by (simp_all only: r fst_conv snd_conv fun_upd_same)
  moreover have "fst (add_to_cart late_expire user_U catalog 1 ''token'' once)
        = Inr ''Item: Widget was added to cart!''"
    and "snd (add_to_cart late_expire user_U catalog 1 ''token'' once) (get_cart_key ''U'' 7)
        = Some \<lparr>hash_fields = [(1, widget_line 2)], expires_at = Some 86400\<rparr>"
    by (simp_all only: a fst_conv snd_conv fun_upd_same)
  ultimately show ?thesis using t n by blast
qed

text \<open>
  Claim C7, amended. After a successful \<^verbatim>\<open>add_to_cart\<close> during which the cart does not
  lapse between the write and the \<^verbatim>\<open>expire\<close> command, the key of the user's cart
  expires 24 hours after the instant of the \<^verbatim>\<open>expire\<close> command, whatever its expiry
  was. \<^verbatim>\<open>remove_item_from_cart\<close> sends no \<^verbatim>\<open>expire\<close>, and when the cart does not lapse
  between its read and its write, no outcome of it changes the expiry of a key: every key
  that exists afterwards existed before, with the same expiry (a key can only disappear,
  when its last field is deleted).
\<close>

theorem cart_expiry:
  "(verify_token token = Inr ui \<and> fst (add_to_cart e verify_token db i token c) = Inr msg
      \<and> \<not> lapses_between c (get_cart_key (sub ui) (user_id ui))
             (time_of e HSET) (time_of e EXPIRE) \<longrightarrow>
      (\<exists>x. snd (add_to_cart e verify_token db i token c) (get_cart_key (sub ui) (user_id ui))
              = Some x
          \<and> expires_at x = Some (time_of e EXPIRE + 24 * 60 * 60)))
   \<and> (verify_token token = Inr ui
        \<and> \<not> lapses_between c (get_cart_key (sub ui) (user_id ui))
               (time_of e HGET) (time_of e HSET) \<longrightarrow>
        (\<forall>k x'. snd (remove_item_from_cart e verify_token i token c) k = Some x' \<longrightarrow>
            (\<exists>x. c k = Some x \<and> expires_at x' = expires_at x)))"
proof (intro conjI impI allI)
  assume a: "verify_token token = Inr ui \<and> fst (add_to_cart e verify_token db i token c) = Inr msg
      \<and> \<not> lapses_between c (get_cart_key (sub ui) (user_id ui))
             (time_of e HSET) (time_of e EXPIRE)"
  let ?k = "get_cart_key (sub ui) (user_id ui)"
  from a obtain it info where q: "query_first db i = Some it"
    and nf: "\<not> fails e HGET" "\<not> fails e HSET" "\<not> fails e EXPIRE"
    and info: "new_item_info (cart_lookup (time_of e HGET) c ?k i) it = Inr info"
    using add_to_cart_success [where verify_token = verify_token and token = token] by blast
  from a have nl: "\<not> lapses_between c ?k (time_of e HSET) (time_of e EXPIRE)" by simp
  have "snd (add_to_cart e verify_token db i token c)
          = snd (expire e (snd (hset e c ?k i info)) ?k 86400)"
    using add_to_cart_ok [where verify_token = verify_token and token = token, OF _ q nf info] a
    by simp
  then show "\<exists>x. snd (add_to_cart e verify_token db i token c) ?k = Some x
          \<and> expires_at x = Some (time_of e EXPIRE + 24 * 60 * 60)"
    using hset_then_expire [OF nf(2,3) _ nl, of 86400 i info] by simp
next
  fix k x'
  assume h: "verify_token token = Inr ui
        \<and> \<not> lapses_between c (get_cart_key (sub ui) (user_id ui))
               (time_of e HGET) (time_of e HSET)"
  assume r: "snd (remove_item_from_cart e verify_token i token c) k = Some x'"
  let ?k = "get_cart_key (sub ui) (user_id ui)"
  from h have vt: "verify_token token = Inr ui"
    and nl: "\<not> lapses_between c ?k (time_of e HGET) (time_of e HSET)" by simp_all
  note s = snd_remove_item_from_cart [where verify_token = verify_token and token = token
      and e = e and i = i and c = c, OF vt]
  show "\<exists>x. c k = Some x \<and> expires_at x' = expires_at x"
  proof (cases "fails e HGET")
    case True
    with r s show ?thesis by (simp add: hget_cart_lookup)
  next
    case False
    show ?thesis
    proof (cases "cart_lookup (time_of e HGET) c ?k i")
      case None
      with False r s show ?thesis by (simp add: hget_cart_lookup)
    next
      case (Some it)
      then have "live (time_of e HGET) c ?k \<noteq> None" by (rule cart_lookup_live)
      then have lv: "live (time_of e HSET) c ?k \<noteq> None" using nl by (rule still_live)
      from Some False r s have "snd (remove_item_try e c ?k i it) k = Some x'"
        by (simp add: hget_cart_lookup)
      with lv show ?thesis by (rule remove_item_try_keeps_expiry)
    qed
  qed
qed

theorem cart_expiry_witness:
  "fst (add_to_cart (quiet 5) user_U catalog 1 ''token'' once) = Inr ''Item: Widget was added to cart!''
   \<and> \<not> lapses_between once (get_cart_key ''U'' 7) 5 5
   \<and> (\<exists>x. twice (get_cart_key ''U'' 7) = Some x \<and> expires_at x = Some 86405)
   \<and> \<not> lapses_between twice (get_cart_key ''U'' 7) 10 10
   \<and> (\<exists>x x'. snd (remove_item_from_cart (quiet 10) user_U 1 ''token'' twice) (get_cart_key ''U'' 7)
                 = Some x'
            \<and> twice (get_cart_key ''U'' 7) = Some x \<and> expires_at x' = expires_at x)"
proof -
  note t = cart_expiry [where verify_token = user_U and token = "''token''" and e = "quiet 5"
      and db = catalog and i = 1 and c = once and ui = "\<lparr>sub = ''U'', user_id = 7\<rparr>"
      and msg = "''Item: Widget was added to cart!''"]
  note r = cart_expiry [where verify_token = user_U and token = "''token''" and e = "quiet 10"
      and db = catalog and msg = "[]" and i = 1 and c = twice
      and ui = "\<lparr>sub = ''U'', user_id = 7\<rparr>"]
  have n1: "\<not> lapses_between once (get_cart_key ''U'' 7) 5 5"
    by (simp add: lapses_between_def once_value)
  have n2: "\<not> lapses_between twice (get_cart_key ''U'' 7) 10 10"
    by (simp add: lapses_between_def twice_value)
  have a: "\<exists>x. twice (get_cart_key ''U'' 7) = Some x \<and> expires_at x = Some 86405"
    using t user_U_ok add_widget_again n1 by (simp add: twice_def quiet_time)
  have "\<forall>k x'. snd (remove_item_from_cart (quiet 10) user_U 1 ''token'' twice) k = Some x' \<longrightarrow>
            (\<exists>x. twice k = Some x \<and> expires_at x' = expires_at x)"
    using r user_U_ok n2 by (simp add: quiet_time)
  then have b: "\<exists>x x'. snd (remove_item_from_cart (quiet 10) user_U 1 ''token'' twice)
                     (get_cart_key ''U'' 7) = Some x'
            \<and> twice (get_cart_key ''U'' 7) = Some x \<and> expires_at x' = expires_at x"
    using remove_from_twice by (metis fun_upd_same)
  from a b n1 n2 add_widget_again show ?thesis by blast
qed

section \<open>Listing the store\<close>

text \<open>
  Claim C6. \<^verbatim>\<open>view_store\<close> raises the 404 \<^verbatim>\<open>HTTPException\<close> exactly when the
  inventory is empty, and raises no other; when there is at least one item it returns one
  row for each item, in order, with the item's name, its price formatted after a dollar
  sign, and its stock flag.
\<close>

theorem view_store_result:
  "(view_store str_price db =
       Inl (HTTPException 404
              ''There are no items in inventory right now. Please come back later.'')
     \<longleftrightarrow> db = [])
   \<and> (db \<noteq> [] \<longrightarrow>
        view_store str_price db =
          Inr (map (\<lambda>it. \<lparr>row_name = name it, row_price = ''$'' @ str_price (price it),
                           row_in_stock = in_stock it\<rparr>) db))
   \<and> (\<forall>code detail. view_store str_price db = Inl (HTTPException code detail) \<longrightarrow> db = [])"
proof (cases db)
  case Nil
  then show ?thesis by (simp add: view_store_def query_all_def)
next
  case (Cons it rest)
  then have "view_store str_price db =
          Inr (map (\<lambda>it. \<lparr>row_name = name it, row_price = ''$'' @ str_price (price it),
                           row_in_stock = in_stock it\<rparr>) db)"
    by (simp add: view_store_def query_all_def)
  with Cons show ?thesis by simp
qed

theorem view_store_result_witness:
  "view_store cents ([] :: (rat, bool) session) =
       Inl (HTTPException 404
              ''There are no items in inventory right now. Please come back later.'')
   \<and> view_store cents catalog =
       Inr [\<lparr>row_name = ''Widget'', row_price = ''$9.99'', row_in_stock = True\<rparr>,
            \<lparr>row_name = ''Gadget'', row_price = ''$2.50'', row_in_stock = False\<rparr>]"
proof -
  have c: "catalog \<noteq> []" by (simp add: catalog_def)
  have f: "\<lfloor>999 / 100 :: rat\<rfloor> = 9" "\<lfloor>5 / 2 :: rat\<rfloor> = 2"
    by (simp_all add: floor_unique)
  have "cents (999 / 100) = ''9.99''" "cents (5 / 2) = ''2.50''"
    by (simp_all add: cents_def f str_int_def str_nat.simps digit_char_def)
  then show ?thesis
    using view_store_result [of cents "[] :: (rat, bool) session"]
      view_store_result [of cents catalog] c
    by (simp add: catalog_def widget_def gadget_def)
qed

section \<open>Quantities stay positive\<close>

lemma positive_quantity_iff:
  "positive_quantity v \<longleftrightarrow> (\<exists>q. attr v ''quantity'' = Some (JInt q) \<and> 1 \<le> q)"
  by (auto simp: positive_quantity_def split: option.splits json.splits)

lemma all_positive_hset:
  assumes "all_positive c" "positive_quantity v"
  shows "all_positive (snd (hset e c k f v))"
proof (cases "fails e HSET")
  case True
  with assms(1) show ?thesis by (simp add: hset_def)
next
  case False
  show ?thesis
  proof (cases "live (time_of e HSET) c k")
    case None
    with False assms show ?thesis by (auto simp: hset_def all_positive_def)
  next
    case (Some x)
    then have "c k = Some x" by (rule live_Some)
    with assms(1) have old: "\<forall>g w. (g, w) \<in> set (hash_fields x) \<longrightarrow> positive_quantity w"
      by (auto simp: all_positive_def)
    have "\<forall>g w. (g, w) \<in> set (field_update f v (hash_fields x)) \<longrightarrow> positive_quantity w"
      using old assms(2) set_field_update [of f v "hash_fields x"] by auto
    with False Some assms(1) show ?thesis by (auto simp: hset_def all_positive_def)
  qed
qed

lemma all_positive_expire: "all_positive c \<Longrightarrow> all_positive (snd (expire e c k n))"
  by (auto simp: expire_def all_positive_def dest!: live_Some split: option.splits if_splits)

lemma all_positive_hdel: "all_positive c \<Longrightarrow> all_positive (snd (hdel e c k f))"
  by (auto simp: hdel_def all_positive_def Let_def dest!: live_Some split: option.splits if_splits)

lemma all_positive_lookup:
  assumes "all_positive c" "cart_lookup t c k f = Some v"
  shows "positive_quantity v"
proof -
  from assms(2) obtain x where x: "live t c k = Some x" and m: "map_of (hash_fields x) f = Some v"
    by (auto simp: cart_lookup_def split: option.splits)
  from m have "(f, v) \<in> set (hash_fields x)" by (rule map_of_SomeD)
  moreover from x have "c k = Some x" by (rule live_Some)
  ultimately show ?thesis using assms(1) by (auto simp: all_positive_def)
qed

lemma new_item_info_positive:
  assumes "\<forall>v. existing = Some v \<longrightarrow> positive_quantity v" "new_item_info existing it = Inr info"
  shows "positive_quantity info"
proof (cases existing)
  case None
  with assms(2) show ?thesis by (auto simp: new_item_info_def positive_quantity_def)
next
  case (Some v)
  with assms(1) obtain q where q: "attr v ''quantity'' = Some (JInt q)" "1 \<le> q"
    using positive_quantity_iff by blast
  then obtain kvs where "v = JObj kvs"
    and "new_item_info (Some v) it = Inr (JObj (dict_update ''quantity'' (JInt (q + 1)) kvs))"
    using new_item_info_present by blast
  with assms(2) Some have "info = JObj (dict_update ''quantity'' (JInt (q + 1)) kvs)" by simp
  with q(2) show ?thesis by (simp add: positive_quantity_def map_of_dict_update)
qed

lemma add_to_cart_try_positive:
  assumes "all_positive c"
  shows "all_positive (snd (add_to_cart_try e c k it))"
proof (cases "hget e c k (item_id it)")
  case (Inl x)
  with assms show ?thesis by (simp add: add_to_cart_try_def)
next
  case (Inr existing)
  then have ex: "existing = cart_lookup (time_of e HGET) c k (item_id it)"
    by (simp add: hget_cart_lookup split: if_splits)
  show ?thesis
  proof (cases "new_item_info existing it")
    case (Inl x)
    with Inr assms show ?thesis by (simp add: add_to_cart_try_def)
  next
    case info: (Inr info)
    have "\<forall>v. existing = Some v \<longrightarrow> positive_quantity v"
      using assms ex all_positive_lookup by metis
    then have "positive_quantity info" using info by (rule new_item_info_positive)
    then have p1: "all_positive (snd (hset e c k (item_id it) info))"
      using assms by (simp add: all_positive_hset)
    then have p2: "all_positive (snd (expire e (snd (hset e c k (item_id it) info)) k 86400))"
      by (rule all_positive_expire)
    from Inr info p1 p2 show ?thesis
      by (auto simp: add_to_cart_try_def json_dumps_def split: prod.splits sum.splits)
  qed
qed

lemma remove_item_try_positive:
  assumes "all_positive c" "positive_quantity it"
  shows "all_positive (snd (remove_item_try e c k i it))"
proof -
  from assms(2) obtain q where q: "attr it ''quantity'' = Some (JInt q)" "1 \<le> q"
    using positive_quantity_iff by blast
  then obtain kvs where kvs: "it = JObj kvs" "map_of kvs ''quantity'' = Some (JInt q)"
    using attr_quantity_obj by blast
  show ?thesis
  proof (cases "1 < q")
    case True
    have "positive_quantity (JObj (dict_update ''quantity'' (JInt (q - 1)) kvs))"
      using True by (simp add: positive_quantity_def map_of_dict_update)
    then have "all_positive (snd (hset e c k i (JObj (dict_update ''quantity'' (JInt (q - 1)) kvs))))"
      using assms(1) by (simp add: all_positive_hset)
    with True kvs show ?thesis
      by (simp add: remove_item_try_def and_then_def json_dumps_def)
  next
    case False
    with kvs assms(1) show ?thesis
      by (simp add: remove_item_try_def and_then_def all_positive_hdel)
  qed
qed

lemma add_to_cart_positive:
  assumes "all_positive c"
  shows "all_positive (snd (add_to_cart e verify_token db i token c))"
proof (cases "verify_token token")
  case (Inl x)
  with assms show ?thesis by (simp add: add_to_cart_def)
next
  case (Inr ui)
  show ?thesis
  proof (cases "query_first db i")
    case None
    with Inr assms show ?thesis by (simp add: add_to_cart_def)
  next
    case (Some it)
    show ?thesis
      using assms
      by (simp add: snd_add_to_cart [where verify_token = verify_token and token = token,
            OF Inr Some] add_to_cart_try_positive)
  qed
qed

lemma remove_item_from_cart_positive:
  assumes "all_positive c"
  shows "all_positive (snd (remove_item_from_cart e verify_token i token c))"
proof (cases "verify_token token")
  case (Inl x)
  with assms show ?thesis by (simp add: remove_item_from_cart_def)
next
  case (Inr ui)
  let ?k = "get_cart_key (sub ui) (user_id ui)"
  note s = snd_remove_item_from_cart [where verify_token = verify_token and token = token
      and e = e and i = i and c = c, OF Inr]
  show ?thesis
  proof (cases "fails e HGET")
    case True
    with s assms show ?thesis by (simp add: hget_cart_lookup)
  next
    case False
    show ?thesis
    proof (cases "cart_lookup (time_of e HGET) c ?k i")
      case None
      with False s assms show ?thesis by (simp add: hget_cart_lookup)
    next
      case (Some it)
      with assms have "positive_quantity it" by (rule all_positive_lookup)
      with assms have "all_positive (snd (remove_item_try e c ?k i it))"
        by (rule remove_item_try_positive)
      with Some False s show ?thesis by (simp add: hget_cart_lookup)
    qed
  qed
qed

lemma serve_positive: "all_positive c \<Longrightarrow> all_positive (serve r c)"
  by (cases r) (simp_all add: add_to_cart_positive remove_item_from_cart_positive)

lemma serve_all_positive: "all_positive c \<Longrightarrow> all_positive (serve_all rs c)"
  by (induction rs arbitrary: c) (simp_all add: serve_positive)

lemma reached_positive: "all_positive (serve_all rs Map.empty)"
proof -
  have "all_positive (Map.empty :: 'a cache)" by (simp add: all_positive_def)
  then show ?thesis by (rule serve_all_positive)
qed

lemma stored_positive:
  assumes "all_positive c" "c k = Some x" "(f, v) \<in> set (hash_fields x)"
  shows "\<exists>q. attr v ''quantity'' = Some (JInt q) \<and> 1 \<le> q"
proof -
  from assms have "positive_quantity v" by (fastforce simp: all_positive_def)
  then show ?thesis by (simp add: positive_quantity_iff)
qed

text \<open>
  Claim C3. In every cache \<open>c\<close> reached from the empty cache by any sequence of
  \<^verbatim>\<open>add_to_cart\<close> and \<^verbatim>\<open>remove_item_from_cart\<close> requests (by any users, at any
  instants, with any inventory, whether the cache client fails or not), every line item
  stored in every cart has an integer quantity of at least 1. And a quantity that would
  reach 0 results in removal: when an authenticated user removes from \<open>c\<close> an item that
  the read finds with a quantity whose decrement is below 1, and the cache answers, the
  request succeeds, no lookup from the instant of the delete on finds the entry, and the
  cache that the request leaves holds no record with quantity 0.
\<close>

theorem quantity_at_least_one:
  assumes "c = serve_all rs Map.empty"
  shows "(\<forall>k x f v. c k = Some x \<and> (f, v) \<in> set (hash_fields x) \<longrightarrow>
            (\<exists>q. attr v ''quantity'' = Some (JInt q) \<and> 1 \<le> q))
         \<and> (\<forall>v q. verify_token token = Inr ui \<and> \<not> fails e HGET \<and> \<not> fails e HDEL
               \<and> cart_lookup (time_of e HGET) c (get_cart_key (sub ui) (user_id ui)) i = Some v
               \<and> attr v ''quantity'' = Some (JInt q) \<and> q - 1 < 1 \<longrightarrow>
             fst (remove_item_from_cart e verify_token i token c)
               = Inr ''The item was removed from your cart.''
             \<and> (\<forall>t. time_of e HDEL \<le> t \<longrightarrow>
                   cart_lookup t (snd (remove_item_from_cart e verify_token i token c))
                     (get_cart_key (sub ui) (user_id ui)) i = None)
             \<and> (\<forall>k x f w. snd (remove_item_from_cart e verify_token i token c) k = Some x
                   \<and> (f, w) \<in> set (hash_fields x) \<longrightarrow>
                   attr w ''quantity'' \<noteq> Some (JInt 0)))"
proof (intro conjI allI impI)
  fix k x f v
  assume "c k = Some x \<and> (f, v) \<in> set (hash_fields x)"
  moreover have "all_positive c" unfolding assms by (rule reached_positive)
  ultimately show "\<exists>q. attr v ''quantity'' = Some (JInt q) \<and> 1 \<le> q"
    using stored_positive by blast
next
  fix v q
  let ?k = "get_cart_key (sub ui) (user_id ui)"
  let ?r = "remove_item_from_cart e verify_token i token c"
  assume h: "verify_token token = Inr ui \<and> \<not> fails e HGET \<and> \<not> fails e HDEL
               \<and> cart_lookup (time_of e HGET) c ?k i = Some v
               \<and> attr v ''quantity'' = Some (JInt q) \<and> q - 1 < 1"
  then obtain kvs where kvs: "v = JObj kvs" "map_of kvs ''quantity'' = Some (JInt q)"
    using attr_quantity_obj by blast
  from h have vt: "verify_token token = Inr ui" and nf: "\<not> fails e HGET" "\<not> fails e HDEL"
    and lk: "cart_lookup (time_of e HGET) c ?k i = Some (JObj kvs)" and q: "q \<le> 1"
    using kvs by simp_all
  have d: "hdel e c k' f = (Inr (), snd (hdel e c k' f))" for k' f
    using nf(2) by (simp add: hdel_def)
  have "remove_item_try e c ?k i (JObj kvs) = hdel e c ?k i"
    using kvs(2) q by (simp add: remove_item_try_def and_then_def)
  then have r: "?r = (Inr ''The item was removed from your cart.'', snd (hdel e c ?k i))"
    using vt nf(1) lk
    by (simp add: remove_item_from_cart_def hget_cart_lookup Let_def)
       (subst d, simp)
  have pos: "all_positive (snd ?r)"
    unfolding assms by (rule remove_item_from_cart_positive [OF reached_positive])
  {
    show "fst ?r = Inr ''The item was removed from your cart.''" by (simp add: r)
  next
    fix t assume "time_of e HDEL \<le> t"
    then show "cart_lookup t (snd ?r) ?k i = None"
      using nf(2) by (simp add: r cart_lookup_after_hdel)
  next
    fix k x f w
    assume "snd ?r k = Some x \<and> (f, w) \<in> set (hash_fields x)"
    then obtain n where "attr w ''quantity'' = Some (JInt n)" "1 \<le> n"
      using stored_positive [OF pos] by blast
    then show "attr w ''quantity'' \<noteq> Some (JInt 0)" by simp
  }
qed

theorem quantity_at_least_one_witness:
  "serve_all [AddToCart (quiet 0) user_U catalog 1 ''token'',
              AddToCart (quiet 5) user_U catalog 1 ''token'',
              RemoveFromCart (quiet 10) user_U 1 ''token''] Map.empty (get_cart_key ''U'' 7)
      = Some \<lparr>hash_fields = [(1, widget_line 1)], expires_at = Some 86405\<rparr>
   \<and> (\<exists>q. attr (widget_line 1) ''quantity'' = Some (JInt q) \<and> 1 \<le> q)
   \<and> fst (remove_item_from_cart (quiet 15) user_U 1 ''token''
        (serve_all [AddToCart (quiet 0) user_U catalog 1 ''token'',
                    AddToCart (quiet 5) user_U catalog 1 ''token'',
                    RemoveFromCart (quiet 10) user_U 1 ''token''] Map.empty))
      = Inr ''The item was removed from your cart.''
   \<and> cart_lookup 15 (snd (remove_item_from_cart (quiet 15) user_U 1 ''token''
        (serve_all [AddToCart (quiet 0) user_U catalog 1 ''token'',
                    AddToCart (quiet 5) user_U catalog 1 ''token'',
                    RemoveFromCart (quiet 10) user_U 1 ''token''] Map.empty)))
        (get_cart_key ''U'' 7) 1 = None"
proof -
  define rs :: "(rat, bool) request list" where
    "rs = [AddToCart (quiet 0) user_U catalog 1 ''token'',
           AddToCart (quiet 5) user_U catalog 1 ''token'',
           RemoveFromCart (quiet 10) user_U 1 ''token'']"
  define c where "c = serve_all rs Map.empty"
  define k where "k = get_cart_key ''U'' 7"
  have c: "c = [k \<mapsto> \<lparr>hash_fields = [(1, widget_line 1)], expires_at = Some 86405\<rparr>]"
    using remove_from_twice by (simp add: c_def rs_def k_def once_def twice_def)
  have s: "c k = Some \<lparr>hash_fields = [(1, widget_line 1)], expires_at = Some 86405\<rparr>"
    by (simp only: c fun_upd_same)
  have m: "(1, widget_line 1)
             \<in> set (hash_fields \<lparr>hash_fields = [(1, widget_line 1)], expires_at = Some 86405\<rparr>)"
    by simp
  have l: "cart_lookup 15 c k 1 = Some (widget_line 1)"
    by (simp only: c) (simp add: cart_lookup_def live_def)
  note t = quantity_at_least_one [where c = c and rs = rs and verify_token = user_U
      and token = "''token''" and ui = "\<lparr>sub = ''U'', user_id = 7\<rparr>" and e = "quiet 15"
      and i = 1, OF c_def]
  from t have t1: "\<forall>k x f v. c k = Some x \<and> (f, v) \<in> set (hash_fields x) \<longrightarrow>
            (\<exists>q. attr v ''quantity'' = Some (JInt q) \<and> 1 \<le> q)"
    by (rule conjunct1)
  have a: "\<exists>q. attr (widget_line 1) ''quantity'' = Some (JInt q) \<and> 1 \<le> q"
    using t1 s m by blast
  have h: "user_U ''token'' = Inr \<lparr>sub = ''U'', user_id = 7\<rparr> \<and> \<not> fails (quiet 15) HGET
             \<and> \<not> fails (quiet 15) HDEL
             \<and> cart_lookup (time_of (quiet 15) HGET) c
                 (get_cart_key (sub \<lparr>sub = ''U'', user_id = 7\<rparr>)
                    (user_id \<lparr>sub = ''U'', user_id = 7\<rparr>)) 1 = Some (widget_line 1)
             \<and> attr (widget_line 1) ''quantity'' = Some (JInt 1) \<and> (1::int) - 1 < 1"
    using l by (simp add: user_U_ok quiet_ok quiet_time attr_widget_line k_def)
  from t [THEN conjunct2, rule_format, OF h]
  have b: "fst (remove_item_from_cart (quiet 15) user_U 1 ''token'' c)
             = Inr ''The item was removed from your cart.''"
    and d: "cart_lookup 15 (snd (remove_item_from_cart (quiet 15) user_U 1 ''token'' c)) k 1 = None"
    by (simp_all add: quiet_time k_def)
  from s a b d show ?thesis unfolding c_def rs_def k_def by blast
qed

end
